theory Spec2Isabelle
  imports Main "HOL-Library.Sublist"
begin

section \<open>Values loaded from the JSON files\<close>

text \<open>
  \<^verbatim>\<open>json.load\<close> yields \<^verbatim>\<open>None\<close>, booleans, unbounded integers, floats,
  strings, lists and dicts. The program never computes with a float: it only prints it, so
  a float is carried by its \<^verbatim>\<open>repr\<close> text. A dict is an association list read with
  \<open>map_of\<close> (the first binding of a key is the dict's value for it). A Python string
  is a list of code points; the model covers the code points below 256. The loader refuses
  a file with an integer literal of more than 4300 digits, as a file it cannot parse, so the
  integers of a loaded value have a \<^verbatim>\<open>str\<close>.
\<close>

datatype json =
    JNull
  | JBool bool
  | JInt int
  | JFloat string
  | JStr string
  | JList "json list"
  | JObj "(string \<times> json) list"

datatype py_error =
    KeyError string
  | TypeError
  | AttributeError
  | NotADirectoryError

type_synonym row = "json list"

definition NA :: json where
  "NA = JStr ''N/A''"

subsection \<open>The operations of Python the program applies to a loaded value\<close>

text \<open>\<^verbatim>\<open>needle in s\<close> on two strings: \<open>needle\<close> occurs in \<open>s\<close> as a contiguous run.\<close>

fun str_contains :: "string \<Rightarrow> string \<Rightarrow> bool" where
  "str_contains needle [] = (needle = [])"
| "str_contains needle (c # cs) = (prefix needle (c # cs) \<or> str_contains needle cs)"

text \<open>
  \<^verbatim>\<open>key in data\<close>: the keys of a dict, the elements of a list, the substrings of a
  string; \<^verbatim>\<open>TypeError\<close> on anything else.
\<close>

fun py_contains :: "string \<Rightarrow> json \<Rightarrow> py_error + bool" where
  "py_contains k (JObj kvs) = Inr (k \<in> set (map fst kvs))"
| "py_contains k (JList xs) = Inr (JStr k \<in> set xs)"
| "py_contains k (JStr s) = Inr (str_contains k s)"
| "py_contains k _ = Inl TypeError"

text \<open>\<^verbatim>\<open>data[key]\<close> with a string key: only a dict accepts it.\<close>

fun py_getitem :: "json \<Rightarrow> string \<Rightarrow> py_error + json" where
  "py_getitem (JObj kvs) k = (case map_of kvs k of None \<Rightarrow> Inl (KeyError k) | Some v \<Rightarrow> Inr v)"
| "py_getitem _ k = Inl TypeError"

text \<open>\<^verbatim>\<open>data.get(key, default)\<close>: only a dict has the method.\<close>

fun py_get :: "json \<Rightarrow> string \<Rightarrow> json \<Rightarrow> py_error + json" where
  "py_get (JObj kvs) k d = Inr (case map_of kvs k of None \<Rightarrow> d | Some v \<Rightarrow> v)"
| "py_get _ k d = Inl AttributeError"

text \<open>The keys of a dict in insertion order, each once.\<close>

fun dict_keys :: "string list \<Rightarrow> (string \<times> 'v) list \<Rightarrow> string list" where
  "dict_keys seen [] = []"
| "dict_keys seen (kv # kvs) =
     (if fst kv \<in> set seen then dict_keys seen kvs else fst kv # dict_keys (fst kv # seen) kvs)"

text \<open>\<^verbatim>\<open>for x in data\<close>: the elements of a list, the keys of a dict, the characters of a string.\<close>

fun py_iter :: "json \<Rightarrow> py_error + json list" where
  "py_iter (JList xs) = Inr xs"
| "py_iter (JObj kvs) = Inr (map JStr (dict_keys [] kvs))"
| "py_iter (JStr s) = Inr (map (\<lambda>c. JStr [c]) s)"
| "py_iter _ = Inl TypeError"

text \<open>\<^verbatim>\<open>v == "literal"\<close>: only a string equals a string.\<close>

fun py_eq_str :: "json \<Rightarrow> string \<Rightarrow> bool" where
  "py_eq_str (JStr s) lit = (s = lit)"
| "py_eq_str _ lit = False"

subsection \<open>\<^verbatim>\<open>str\<close> and \<^verbatim>\<open>repr\<close>\<close>

definition digit_char :: "nat \<Rightarrow> char" where
  "digit_char n = ''0123456789abcdef'' ! (n mod 16)"

function nat_digits :: "nat \<Rightarrow> string" where
  "nat_digits n = (if n < 10 then [digit_char n] else nat_digits (n div 10) @ [digit_char (n mod 10)])"
  by pat_completeness auto
termination
  by (relation "measure (\<lambda>n. n)") auto

declare nat_digits.simps [simp del]

definition int_str :: "int \<Rightarrow> string" where
  "int_str i = (if i < 0 then CHR ''-'' # nat_digits (nat (- i)) else nat_digits (nat i))"

text \<open>
  \<^verbatim>\<open>repr\<close> of a string: double quotes when the text holds a single quote and no double
  quote, single quotes otherwise; backslash, the chosen quote, tab, newline and carriage
  return are escaped, every other non-printable code point is written \<^verbatim>\<open>\xNN\<close>.
\<close>

definition repr_char :: "char \<Rightarrow> char \<Rightarrow> string" where
  "repr_char q c =
     (if c = q \<or> c = CHR 0x5C then [CHR 0x5C, c]
      else if c = CHR 0x09 then [CHR 0x5C, CHR ''t'']
      else if c = CHR 0x0A then [CHR 0x5C, CHR ''n'']
      else if c = CHR 0x0D then [CHR 0x5C, CHR ''r'']
      else if (of_char c :: nat) < 32 \<or> (127 \<le> (of_char c :: nat) \<and> (of_char c :: nat) \<le> 160)
              \<or> (of_char c :: nat) = 173
        then [CHR 0x5C, CHR ''x'', digit_char (of_char c div 16), digit_char (of_char c mod 16)]
      else [c])"

definition repr_str :: "string \<Rightarrow> string" where
  "repr_str s =
     (let q = (if CHR 0x27 \<in> set s \<and> CHR 0x22 \<notin> set s then CHR 0x22 else CHR 0x27)
      in q # concat (map (repr_char q) s) @ [q])"

fun comma_join :: "string list \<Rightarrow> string" where
  "comma_join [] = []"
| "comma_join [x] = x"
| "comma_join (x # y # ys) = x @ '', '' @ comma_join (y # ys)"

text \<open>The items of a dict as \<^verbatim>\<open>repr\<close> prints them: each key once, with its value.\<close>

fun dict_items :: "string list \<Rightarrow> (string \<times> 'v) list \<Rightarrow> (string \<times> 'v) list" where
  "dict_items seen [] = []"
| "dict_items seen (kv # kvs) =
     (if fst kv \<in> set seen then dict_items seen kvs else kv # dict_items (fst kv # seen) kvs)"

primrec py_repr :: "json \<Rightarrow> string" where
  "py_repr JNull = ''None''"
| "py_repr (JBool b) = (if b then ''True'' else ''False'')"
| "py_repr (JInt i) = int_str i"
| "py_repr (JFloat r) = r"
| "py_repr (JStr s) = repr_str s"
| "py_repr (JList xs) = ''['' @ comma_join (map py_repr xs) @ '']''"
| "py_repr (JObj kvs) =
     ''{'' @ comma_join (map (\<lambda>kv. repr_str (fst kv) @ '': '' @ snd kv)
                          (dict_items [] (map (map_prod (\<lambda>k. k) py_repr) kvs))) @ ''}''"

text \<open>\<^verbatim>\<open>str(v)\<close>: the text itself for a string, \<^verbatim>\<open>repr\<close> for everything else.\<close>

definition py_str :: "json \<Rightarrow> string" where
  "py_str v = (case v of JStr s \<Rightarrow> s | _ \<Rightarrow> py_repr v)"

subsection \<open>\<^verbatim>\<open>int(text)\<close>\<close>

text \<open>
  \<^verbatim>\<open>int\<close> on a string: surrounding whitespace is dropped, then an optional sign and
  decimal digits, where single underscores may stand between digits. A literal of more
  digits than the interpreter's limit for the conversion between integers and strings
  (4300 by default, which the program does not change) is refused like a malformed one.
  \<open>None\<close> is the \<^verbatim>\<open>ValueError\<close>.
\<close>

definition max_str_digits :: nat where
  "max_str_digits = 4300"

definition is_space :: "char \<Rightarrow> bool" where
  "is_space c \<longleftrightarrow> c \<in> set [CHR 0x09, CHR 0x0A, CHR 0x0B, CHR 0x0C, CHR 0x0D, CHR 0x20, CHR 0x85, CHR 0xA0]"

definition is_digit :: "char \<Rightarrow> bool" where
  "is_digit c \<longleftrightarrow> c \<in> set ''0123456789''"

definition digit_val :: "char \<Rightarrow> nat" where
  "digit_val c = of_char c - 48"

definition strip :: "string \<Rightarrow> string" where
  "strip s = rev (dropWhile is_space (rev (dropWhile is_space s)))"

fun digits_value :: "nat \<Rightarrow> string \<Rightarrow> nat option" where
  "digits_value acc [] = Some acc"
| "digits_value acc [c] = (if is_digit c then Some (10 * acc + digit_val c) else None)"
| "digits_value acc (c # d # cs) =
     (if is_digit c then digits_value (10 * acc + digit_val c) (d # cs)
      else if c = CHR ''_'' \<and> is_digit d then digits_value acc (d # cs)
      else None)"

definition parse_unsigned :: "string \<Rightarrow> nat option" where
  "parse_unsigned s =
     (case s of [] \<Rightarrow> None
      | c # cs \<Rightarrow>
          if is_digit c then
            (case digits_value (digit_val c) cs of
               None \<Rightarrow> None
             | Some n \<Rightarrow> if length (filter is_digit s) > max_str_digits then None else Some n)
          else None)"

definition py_int :: "string \<Rightarrow> int option" where
  "py_int s =
     (case strip s of
        [] \<Rightarrow> None
      | c # cs \<Rightarrow>
          if c = CHR ''-'' then map_option (\<lambda>n. - int n) (parse_unsigned cs)
          else if c = CHR ''+'' then map_option int (parse_unsigned cs)
          else map_option int (parse_unsigned (c # cs)))"

section \<open>Classifier and extractor\<close>

text \<open>The loop of \<^verbatim>\<open>extract_ata_data\<close> over the attribute table, with its \<^verbatim>\<open>break\<close>.\<close>

fun scan_table :: "json list \<Rightarrow> py_error + json" where
  "scan_table [] = Inr NA"
| "scan_table (sect # rest) =
     (case py_getitem sect ''name'' of
        Inl e \<Rightarrow> Inl e
      | Inr n \<Rightarrow>
          if py_eq_str n ''Reallocated_Sector_Ct'' then py_getitem sect ''value''
          else scan_table rest)"

definition extract_ata_data :: "json \<Rightarrow> int \<Rightarrow> py_error + row" where
  "extract_ata_data data index =
     (case py_getitem data ''power_on_time'' of Inl e \<Rightarrow> Inl e | Inr pot \<Rightarrow>
      case py_get pot ''hours'' NA of Inl e \<Rightarrow> Inl e | Inr p_on_h \<Rightarrow>
      case py_getitem data ''temperature'' of Inl e \<Rightarrow> Inl e | Inr temp \<Rightarrow>
      case py_get temp ''current'' NA of Inl e \<Rightarrow> Inl e | Inr current_temp \<Rightarrow>
      case py_getitem data ''ata_smart_attributes'' of Inl e \<Rightarrow> Inl e | Inr attrs \<Rightarrow>
      case py_getitem attrs ''table'' of Inl e \<Rightarrow> Inl e | Inr table \<Rightarrow>
      case py_iter table of Inl e \<Rightarrow> Inl e | Inr sects \<Rightarrow>
      case scan_table sects of Inl e \<Rightarrow> Inl e | Inr reallocated_sectors \<Rightarrow>
        Inr [JInt index, JStr ''ATA'', p_on_h, current_temp, reallocated_sectors])"

definition extract_nvme_data :: "json \<Rightarrow> int \<Rightarrow> py_error + row" where
  "extract_nvme_data data index =
     (case py_getitem data ''nvme_smart_health_information'' of Inl e \<Rightarrow> Inl e | Inr health_info \<Rightarrow>
      case py_get health_info ''power_on_hours'' NA of Inl e \<Rightarrow> Inl e | Inr p_on_h \<Rightarrow>
      case py_get health_info ''temperature'' NA of Inl e \<Rightarrow> Inl e | Inr current_temp \<Rightarrow>
        Inr [JInt index, JStr ''NVMe'', p_on_h, current_temp, NA])"

section \<open>Aggregator\<close>

record analyzed =
  ata_data :: "row list"
  nvme_data :: "row list"
  all_data :: "row list"

definition empty_analyzed :: analyzed where
  "empty_analyzed = \<lparr>ata_data = [], nvme_data = [], all_data = []\<rparr>"

text \<open>
  The loop of \<^verbatim>\<open>analyze_data\<close>: \<open>idx\<close> is the counter of \<^verbatim>\<open>enumerate\<close>, which
  advances on every loaded record, classified or not. An exception of the membership test
  or of an extractor leaves the loop.
\<close>

fun analyze_loop :: "int \<Rightarrow> json list \<Rightarrow> analyzed \<Rightarrow> py_error + analyzed" where
  "analyze_loop idx [] acc = Inr acc"
| "analyze_loop idx (data # rest) acc =
     (case py_contains ''ata_smart_attributes'' data of
        Inl e \<Rightarrow> Inl e
      | Inr is_ata \<Rightarrow>
          if is_ata then
            (case extract_ata_data data idx of
               Inl e \<Rightarrow> Inl e
             | Inr disk_data \<Rightarrow>
                 analyze_loop (idx + 1) rest
                   (acc\<lparr>ata_data := ata_data acc @ [drop 1 disk_data],
                        all_data := all_data acc @ [disk_data]\<rparr>))
          else
            (case py_contains ''nvme_smart_health_information'' data of
               Inl e \<Rightarrow> Inl e
             | Inr is_nvme \<Rightarrow>
                 if is_nvme then
                   (case extract_nvme_data data idx of
                      Inl e \<Rightarrow> Inl e
                    | Inr disk_data \<Rightarrow>
                        analyze_loop (idx + 1) rest
                          (acc\<lparr>nvme_data := nvme_data acc @ [drop 1 disk_data],
                               all_data := all_data acc @ [disk_data]\<rparr>))
                 else analyze_loop (idx + 1) rest acc))"

definition analyze_data :: "json list \<Rightarrow> py_error + analyzed" where
  "analyze_data json_data = analyze_loop 1 json_data empty_analyzed"

section \<open>The world the program runs in\<close>

text \<open>
  What the run reads is the state of the input directory: missing, not a directory, or a
  listing in the order of \<^verbatim>\<open>os.listdir\<close>, where each name comes with the outcome of
  opening and parsing the file (the message of the exception, or the loaded value). What it
  leaves behind are the lines printed, the files written and the messages logged, each in
  order. The call \<^verbatim>\<open>print(tabulate(rows, headers=..., tablefmt="grid"))\<close> of the
  third-party library is recorded with the arguments it receives. Writing a file is taken
  to succeed.
\<close>

datatype dir_state =
    Missing
  | NotADirectory
  | Directory "(string \<times> (string + json)) list"

datatype console_out =
    Print string
  | PrintTable "row list" "string list"

record world =
  dirs :: "string \<Rightarrow> dir_state"
  clock :: string
  console :: "console_out list"
  writes :: "(string \<times> string) list"
  log :: "string list"

record monitor =
  json_dir :: string
  output_file :: string
  log_file :: string

definition print :: "string \<Rightarrow> world \<Rightarrow> world" where
  "print s w = w\<lparr>console := console w @ [Print s]\<rparr>"

definition logging_error :: "string \<Rightarrow> world \<Rightarrow> world" where
  "logging_error msg w = w\<lparr>log := log w @ [msg]\<rparr>"

definition write_file :: "string \<Rightarrow> string \<Rightarrow> world \<Rightarrow> world" where
  "write_file path content w = w\<lparr>writes := writes w @ [(path, content)]\<rparr>"

section \<open>Loader\<close>

text \<open>\<^verbatim>\<open>os.path.join\<close> of two components, on POSIX.\<close>

definition path_join :: "string \<Rightarrow> string \<Rightarrow> string" where
  "path_join a b =
     (if prefix ''/'' b then b
      else if a = [] \<or> suffix ''/'' a then a @ b
      else a @ ''/'' @ b)"

fun load_loop :: "string \<Rightarrow> (string \<times> (string + json)) list \<Rightarrow> json list \<Rightarrow> world \<Rightarrow> json list \<times> world" where
  "load_loop dir [] json_data w = (json_data, w)"
| "load_loop dir ((filename, outcome) # rest) json_data w =
     (if suffix ''.json'' filename then
        (case outcome of
           Inr v \<Rightarrow> load_loop dir rest (json_data @ [v]) w
         | Inl err \<Rightarrow>
             load_loop dir rest json_data
               (logging_error (''Error reading JSON file '' @ path_join dir filename @ '': '' @ err) w))
      else load_loop dir rest json_data w)"

definition load_json_data :: "monitor \<Rightarrow> world \<Rightarrow> (py_error + json list) \<times> world" where
  "load_json_data m w =
     (case dirs w (json_dir m) of
        Missing \<Rightarrow> (Inr [], logging_error (''Directory '' @ json_dir m @ '' not found.'') w)
      | NotADirectory \<Rightarrow> (Inl NotADirectoryError, w)
      | Directory entries \<Rightarrow>
          (case load_loop (json_dir m) entries [] w of (json_data, w') \<Rightarrow> (Inr json_data, w')))"

section \<open>Console presenter\<close>

definition ata_headers :: "string list" where
  "ata_headers = [''Type'', ''Power-on Hours'', ''Temperature'', ''Reallocated Sectors'']"

definition nvme_headers :: "string list" where
  "nvme_headers = [''Type'', ''Power-on Hours'', ''Temperature'']"

definition display_report :: "analyzed \<Rightarrow> world \<Rightarrow> world" where
  "display_report analyzed_data w =
     (let w1 = print ''\<newline>### ATA DEVICES ###'' w;
          w2 = (if ata_data analyzed_data \<noteq> []
                then w1\<lparr>console := console w1 @ [PrintTable (ata_data analyzed_data) ata_headers]\<rparr>
                else print ''No ATA devices found.'' w1);
          w3 = print ''\<newline>### NVMe DEVICES ###'' w2
      in if nvme_data analyzed_data \<noteq> []
         then w3\<lparr>console := console w3 @ [PrintTable (nvme_data analyzed_data) nvme_headers]\<rparr>
         else print ''No NVMe devices found.'' w3)"

text \<open>
  What \<^verbatim>\<open>tabulate\<close> makes of its arguments, by its documentation: the table has as many
  columns as the first row has cells, and when there are fewer headers than columns the
  headers name the last columns, the first ones getting an empty header.
\<close>

definition tabulate_headers :: "row list \<Rightarrow> string list \<Rightarrow> string list" where
  "tabulate_headers rows headers =
     (if headers \<noteq> [] \<and> rows \<noteq> [] \<and> length headers < length (hd rows)
      then replicate (length (hd rows) - length headers) [] @ headers
      else headers)"

section \<open>CSV presenter\<close>

text \<open>
  \<^verbatim>\<open>csv.writer\<close> with its default dialect: a cell is written as its \<^verbatim>\<open>str\<close>,
  \<^verbatim>\<open>None\<close> as the empty text; a text holding a comma, a double quote, a carriage
  return or a line feed is put in double quotes with its double quotes doubled; a row of one
  empty text is written as a pair of quotes; every row ends with carriage return and line feed.
\<close>

definition csv_text :: "json \<Rightarrow> string" where
  "csv_text v = (case v of JNull \<Rightarrow> [] | _ \<Rightarrow> py_str v)"

definition csv_special :: "char \<Rightarrow> bool" where
  "csv_special c \<longleftrightarrow> c = CHR '','' \<or> c = CHR 0x22 \<or> c = CHR 0x0D \<or> c = CHR 0x0A"

fun csv_escape :: "string \<Rightarrow> string" where
  "csv_escape [] = []"
| "csv_escape (c # cs) = (if c = CHR 0x22 then CHR 0x22 # CHR 0x22 # csv_escape cs else c # csv_escape cs)"

definition csv_field :: "string \<Rightarrow> string" where
  "csv_field s = (if list_ex csv_special s then CHR 0x22 # csv_escape s @ [CHR 0x22] else s)"

fun csv_join :: "string list \<Rightarrow> string" where
  "csv_join [] = []"
| "csv_join [x] = x"
| "csv_join (x # y # ys) = x @ CHR '','' # csv_join (y # ys)"

definition csv_writerow :: "row \<Rightarrow> string" where
  "csv_writerow r =
     (if map csv_text r = [[]] then [CHR 0x22, CHR 0x22]
      else csv_join (map (\<lambda>v. csv_field (csv_text v)) r)) @ [CHR 0x0D, CHR 0x0A]"

definition csv_header :: row where
  "csv_header = [JStr ''# Device'', JStr ''Type'', JStr ''Power-on Hours'', JStr ''Temperature'',
                 JStr ''Reallocated Sectors'']"

fun csv_rows :: "row list \<Rightarrow> string \<Rightarrow> string" where
  "csv_rows [] file = file"
| "csv_rows (r # rest) file = csv_rows rest (file @ csv_writerow r)"

definition save_report :: "monitor \<Rightarrow> analyzed \<Rightarrow> world \<Rightarrow> world" where
  "save_report m analyzed_data w =
     print (''Report saved to '' @ output_file m @ ''!'')
       (write_file (output_file m) (csv_rows (all_data analyzed_data) (csv_writerow csv_header)) w)"

section \<open>HTML presenter\<close>

definition td_plain :: "string \<Rightarrow> string" where
  \<open>td_plain cell_str = ''<td>'' @ cell_str @ ''</td>''\<close>

definition td_warning :: "string \<Rightarrow> string" where
  \<open>td_warning cell_str = ''<td class="warning">'' @ cell_str @ ''</td>''\<close>

definition td_danger :: "string \<Rightarrow> string" where
  \<open>td_danger cell_str = ''<td class="danger">'' @ cell_str @ ''</td>''\<close>

text \<open>
  The markup one cell adds to the table: the chain of tests in the inner loop of
  \<^verbatim>\<open>_generate_html_table\<close>, where \<open>None\<close> of \<open>py_int\<close> is the \<^verbatim>\<open>ValueError\<close>
  each branch catches.
\<close>

definition html_cell :: "string list \<Rightarrow> nat \<Rightarrow> string \<Rightarrow> string" where
  "html_cell headers i cell_str =
     (if i = 3 \<and> i < length headers \<and> headers ! i = ''Reallocated Sectors''
         \<and> cell_str \<noteq> ''N/A'' \<and> cell_str \<noteq> ''0'' then
        (case py_int cell_str of
           Some n \<Rightarrow> if n > 0 then td_warning cell_str else td_plain cell_str
         | None \<Rightarrow> td_plain cell_str)
      else if i = 1 \<and> i < length headers \<and> headers ! i = ''Power-on Hours''
         \<and> cell_str \<noteq> ''N/A'' then
        (case py_int cell_str of
           Some n \<Rightarrow> if n > 30000 then td_warning cell_str else td_plain cell_str
         | None \<Rightarrow> td_plain cell_str)
      else if i = 2 \<and> i < length headers \<and> headers ! i = ''Temperature''
         \<and> cell_str \<noteq> ''N/A'' then
        (case py_int cell_str of
           Some n \<Rightarrow> if n > 50 then td_danger cell_str else td_plain cell_str
         | None \<Rightarrow> td_plain cell_str)
      else td_plain cell_str)"

text \<open>The inner loop over \<^verbatim>\<open>enumerate(row)\<close>, with its \<^verbatim>\<open>continue\<close>.\<close>

fun html_cells :: "string list \<Rightarrow> nat \<Rightarrow> row \<Rightarrow> string \<Rightarrow> string" where
  "html_cells headers i [] table = table"
| "html_cells headers i (cell # rest) table =
     (if i \<ge> length headers then html_cells headers (i + 1) rest table
      else html_cells headers (i + 1) rest (table @ html_cell headers i (py_str cell)))"

fun html_rows :: "string list \<Rightarrow> row list \<Rightarrow> string \<Rightarrow> string" where
  "html_rows headers [] table = table"
| "html_rows headers (r # rest) table =
     html_rows headers rest (html_cells headers 0 r (table @ ''<tr>'') @ ''</tr>\<newline>'')"

fun html_header_cells :: "string list \<Rightarrow> string \<Rightarrow> string" where
  "html_header_cells [] table = table"
| "html_header_cells (header # rest) table =
     html_header_cells rest (table @ ''<th>'' @ header @ ''</th>'')"

definition generate_html_table :: "row list \<Rightarrow> string list \<Rightarrow> string" where
  "generate_html_table data headers =
     html_rows headers data
       (html_header_cells headers ''<table>\<newline><tr>'' @ ''</tr>\<newline>'') @ ''</table>''"

definition html_head :: string where
  \<open>html_head =
     ''<!DOCTYPE html>\<newline>'' @
     ''<html lang="en">\<newline>'' @
     ''<head>\<newline>'' @
     ''    <meta charset="UTF-8">\<newline>'' @
     ''    <meta name="viewport" content="width=device-width, initial-scale=1.0">\<newline>'' @
     ''    <title>Disk Status Report</title>\<newline>'' @
     ''    <style>\<newline>'' @
     ''        body { font-family: Arial, sans-serif; margin: 20px; }\<newline>'' @
     ''        h1, h2 { color: #333; }\<newline>'' @
     ''        table { border-collapse: collapse; width: 100%; margin-bottom: 20px; }\<newline>'' @
     ''        th, td { border: 1px solid #ddd; padding: 8px; text-align: left; }\<newline>'' @
     ''        th { background-color: #f2f2f2; }\<newline>'' @
     ''        tr:nth-child(even) { background-color: #f9f9f9; }\<newline>'' @
     ''        .warning { background-color: #fff3cd; }\<newline>'' @
     ''        .danger { background-color: #f8d7da; }\<newline>'' @
     ''        .footer { margin-top: 30px; font-size: 0.8em; color: #666; }\<newline>'' @
     ''    </style>\<newline>'' @
     ''</head>\<newline>'' @
     ''<body>\<newline>'' @
     ''    <h1>Disk Status Report</h1>\<newline>'' @
     ''    <p>Generated on ''\<close>

definition html_before_ata :: string where
  \<open>html_before_ata =
     ''</p>\<newline>'' @
     ''    \<newline>'' @
     ''    <h2>ATA Devices</h2>\<newline>'' @
     ''    ''\<close>

definition html_before_nvme :: string where
  \<open>html_before_nvme =
     ''\<newline>'' @
     ''    \<newline>'' @
     ''    <h2>NVMe Devices</h2>\<newline>'' @
     ''    ''\<close>

definition html_foot :: string where
  \<open>html_foot =
     ''\<newline>'' @
     ''    \<newline>'' @
     ''    <div class="footer">\<newline>'' @
     ''        <p>Report generated by DiskHealthMonitor</p>\<newline>'' @
     ''    </div>\<newline>'' @
     ''</body>\<newline>'' @
     ''</html>''\<close>


definition html_content :: "analyzed \<Rightarrow> string \<Rightarrow> string" where
  "html_content analyzed_data now =
     html_head @ now @ html_before_ata
       @ (if ata_data analyzed_data = [] then ''<p>No ATA devices found.</p>''
          else generate_html_table (ata_data analyzed_data) ata_headers)
       @ html_before_nvme
       @ (if nvme_data analyzed_data = [] then ''<p>No NVMe devices found.</p>''
          else generate_html_table (nvme_data analyzed_data) nvme_headers)
       @ html_foot"

definition generate_html_report :: "analyzed \<Rightarrow> string \<Rightarrow> world \<Rightarrow> world" where
  "generate_html_report analyzed_data html_file w =
     print (''HTML report saved to '' @ html_file @ ''!'')
       (write_file html_file (html_content analyzed_data (clock w)) w)"

section \<open>The run and the command line\<close>

definition run :: "monitor \<Rightarrow> world \<Rightarrow> (py_error + bool) \<times> world" where
  "run m w =
     (case load_json_data m w of
        (Inl e, w1) \<Rightarrow> (Inl e, w1)
      | (Inr json_data, w1) \<Rightarrow>
          if json_data = [] then
            (Inr False, print ''No data found. Verify the JSON files directory.'' w1)
          else
            (case analyze_data json_data of
               Inl e \<Rightarrow> (Inl e, w1)
             | Inr analyzed_data \<Rightarrow>
                 (Inr True,
                  generate_html_report analyzed_data ''report.html''
                    (save_report m analyzed_data (display_report analyzed_data w1)))))"

text \<open>The parsed command line, with the defaults of the parser.\<close>

record args =
  arg_directory :: string
  arg_output :: string
  arg_html :: bool
  arg_log :: string

definition default_args :: args where
  "default_args = \<lparr>arg_directory = ''disk_exs'', arg_output = ''report.csv'',
                    arg_html = False, arg_log = ''error_log.txt''\<rparr>"

text \<open>\<^verbatim>\<open>main\<close> builds the monitor from three of the four arguments and runs it.\<close>

definition main :: "args \<Rightarrow> world \<Rightarrow> (py_error + bool) \<times> world" where
  "main a w =
     run \<lparr>json_dir = arg_directory a, output_file = arg_output a, log_file = arg_log a\<rparr> w"

section \<open>CSV reader\<close>

text \<open>
  The reader the round trip is stated with: \<^verbatim>\<open>csv.reader\<close> of Python with its default
  dialect, over the written file opened with \<^verbatim>\<open>newline=''\<close>. The file is handed over
  line by line, a line ending after a line feed, after a carriage return, or after a carriage
  return followed by a line feed; the reader runs its state machine on every character of a
  line and then on the end of the line, and a record is complete when the end of a line
  leaves the machine at the start of a record. The limit on the length of a field is a
  setting of the reader and is not modelled.
\<close>

datatype csv_state =
    START_RECORD
  | START_FIELD
  | IN_FIELD
  | IN_QUOTED_FIELD
  | QUOTE_IN_QUOTED_FIELD
  | EAT_CRNL

datatype csv_error = NewlineInUnquotedField

text \<open>The state of the machine, the characters of the field being read, the fields read.\<close>

type_synonym csv_parser = "csv_state \<times> string \<times> string list"

datatype csv_event = Ch char | EOL

text \<open>
  The characters of the file with the end of every line marked; the flag tells whether the
  current line has characters already.
\<close>

fun csv_events :: "bool \<Rightarrow> string \<Rightarrow> csv_event list" where
  "csv_events pending [] = (if pending then [EOL] else [])"
| "csv_events pending [c] = [Ch c, EOL]"
| "csv_events pending (c # d # ds) =
     (if c = CHR 0x0D \<and> d = CHR 0x0A then Ch c # Ch d # EOL # csv_events False ds
      else if c = CHR 0x0D \<or> c = CHR 0x0A then Ch c # EOL # csv_events False (d # ds)
      else Ch c # csv_events True (d # ds))"

text \<open>The machine at the start of a field.\<close>

definition start_field :: "string \<Rightarrow> string list \<Rightarrow> char \<Rightarrow> csv_error + csv_parser" where
  "start_field fld flds c =
     (if c = CHR 0x0A \<or> c = CHR 0x0D then Inr (EAT_CRNL, [], flds @ [fld])
      else if c = CHR 0x22 then Inr (IN_QUOTED_FIELD, fld, flds)
      else if c = CHR '','' then Inr (START_FIELD, [], flds @ [fld])
      else Inr (IN_FIELD, fld @ [c], flds))"

text \<open>One character through the machine; at the start of a record a character that ends no
  line is handled as at the start of a field.\<close>

fun parse_process_char :: "csv_parser \<Rightarrow> char \<Rightarrow> csv_error + csv_parser" where
  "parse_process_char (START_RECORD, fld, flds) c =
     (if c = CHR 0x0A \<or> c = CHR 0x0D then Inr (EAT_CRNL, fld, flds)
      else start_field fld flds c)"
| "parse_process_char (START_FIELD, fld, flds) c = start_field fld flds c"
| "parse_process_char (IN_FIELD, fld, flds) c =
     (if c = CHR 0x0A \<or> c = CHR 0x0D then Inr (EAT_CRNL, [], flds @ [fld])
      else if c = CHR '','' then Inr (START_FIELD, [], flds @ [fld])
      else Inr (IN_FIELD, fld @ [c], flds))"
| "parse_process_char (IN_QUOTED_FIELD, fld, flds) c =
     (if c = CHR 0x22 then Inr (QUOTE_IN_QUOTED_FIELD, fld, flds)
      else Inr (IN_QUOTED_FIELD, fld @ [c], flds))"
| "parse_process_char (QUOTE_IN_QUOTED_FIELD, fld, flds) c =
     (if c = CHR 0x22 then Inr (IN_QUOTED_FIELD, fld @ [c], flds)
      else if c = CHR '','' then Inr (START_FIELD, [], flds @ [fld])
      else if c = CHR 0x0A \<or> c = CHR 0x0D then Inr (EAT_CRNL, [], flds @ [fld])
      else Inr (IN_FIELD, fld @ [c], flds))"
| "parse_process_char (EAT_CRNL, fld, flds) c =
     (if c = CHR 0x0A \<or> c = CHR 0x0D then Inr (EAT_CRNL, fld, flds)
      else Inl NewlineInUnquotedField)"

text \<open>The step of the machine at the end of a line.\<close>

fun parse_process_eol :: "csv_parser \<Rightarrow> csv_parser" where
  "parse_process_eol (START_RECORD, fld, flds) = (START_RECORD, fld, flds)"
| "parse_process_eol (START_FIELD, fld, flds) = (START_RECORD, [], flds @ [fld])"
| "parse_process_eol (IN_FIELD, fld, flds) = (START_RECORD, [], flds @ [fld])"
| "parse_process_eol (IN_QUOTED_FIELD, fld, flds) = (IN_QUOTED_FIELD, fld, flds)"
| "parse_process_eol (QUOTE_IN_QUOTED_FIELD, fld, flds) = (START_RECORD, [], flds @ [fld])"
| "parse_process_eol (EAT_CRNL, fld, flds) = (START_RECORD, fld, flds)"

definition parse_reset :: csv_parser where
  "parse_reset = (START_RECORD, [], [])"

text \<open>
  The records read from the marked characters. When the input ends inside a record, which
  can only be inside a quoted field, the reader returns what it has.
\<close>

fun reader_loop :: "csv_parser \<Rightarrow> csv_event list \<Rightarrow> string list list \<Rightarrow> csv_error + string list list" where
  "reader_loop (state, fld, flds) [] records =
     (if fld \<noteq> [] \<or> state = IN_QUOTED_FIELD then Inr (records @ [flds @ [fld]])
      else Inr records)"
| "reader_loop p (Ch c # es) records =
     (case parse_process_char p c of
        Inl e \<Rightarrow> Inl e
      | Inr p' \<Rightarrow> reader_loop p' es records)"
| "reader_loop p (EOL # es) records =
     (case parse_process_eol p of
        (state, fld, flds) \<Rightarrow>
          if state = START_RECORD then reader_loop parse_reset es (records @ [flds])
          else reader_loop (state, fld, flds) es records)"

definition csv_reader :: "string \<Rightarrow> csv_error + string list list" where
  "csv_reader file = reader_loop parse_reset (csv_events False file) []"

section \<open>Notions the properties are stated with\<close>

text \<open>A record the aggregator keeps: one of the two family keys is found in it.\<close>

definition recognized :: "json \<Rightarrow> bool" where
  "recognized d \<longleftrightarrow>
     py_contains ''ata_smart_attributes'' d = Inr True
     \<or> py_contains ''nvme_smart_health_information'' d = Inr True"

text \<open>The positions, counted from \<open>idx\<close>, of the recognized records of a load.\<close>

fun recognized_positions :: "int \<Rightarrow> json list \<Rightarrow> int list" where
  "recognized_positions idx [] = []"
| "recognized_positions idx (d # ds) =
     (if recognized d then idx # recognized_positions (idx + 1) ds
      else recognized_positions (idx + 1) ds)"

text \<open>The \<^verbatim>\<open>name\<close> of a table entry is the attribute looked for.\<close>

definition is_reallocated_entry :: "json \<Rightarrow> bool" where
  "is_reallocated_entry sect \<longleftrightarrow> py_getitem sect ''name'' = Inr (JStr ''Reallocated_Sector_Ct'')"

subsection \<open>Sample inputs\<close>

text \<open>
  The two devices of the end-to-end example: an ATA disk with 40000 power-on hours, 55
  degrees and 3 reallocated sectors, and an NVMe disk with 100 hours and 30 degrees.
\<close>

definition ata_sample :: json where
  "ata_sample =
     JObj [(''power_on_time'', JObj [(''hours'', JInt 40000)]),
           (''temperature'', JObj [(''current'', JInt 55)]),
           (''ata_smart_attributes'',
              JObj [(''table'',
                 JList [JObj [(''name'', JStr ''Raw_Read_Error_Rate''), (''value'', JInt 100)],
                        JObj [(''name'', JStr ''Reallocated_Sector_Ct''), (''value'', JInt 3)],
                        JObj [(''name'', JStr ''Reallocated_Sector_Ct''), (''value'', JInt 7)]])])]"

definition nvme_sample :: json where
  "nvme_sample =
     JObj [(''nvme_smart_health_information'',
              JObj [(''power_on_hours'', JInt 100), (''temperature'', JInt 30)])]"

text \<open>A record of neither family.\<close>

definition other_sample :: json where
  "other_sample = JObj [(''device'', JStr ''sda'')]"

text \<open>An ATA record of a disk that reports no temperature.\<close>

definition ata_without_temperature :: json where
  "ata_without_temperature =
     JObj [(''ata_smart_attributes'', JObj [(''table'', JList [])]),
           (''power_on_time'', JObj [(''hours'', JInt 5)])]"



text \<open>An ATA record whose power-on hours are \<^verbatim>\<open>null\<close>.\<close>

definition ata_null_hours :: json where
  "ata_null_hours =
     JObj [(''ata_smart_attributes'', JObj [(''table'', JList [])]),
           (''power_on_time'', JObj [(''hours'', JNull)]),
           (''temperature'', JObj [(''current'', JInt 30)])]"

definition sample_world :: world where
  "sample_world =
     \<lparr>dirs = (\<lambda>p. if p = ''disk_exs''
                   then Directory [(''a.json'', Inr ata_sample), (''notes.txt'', Inl []),
                                   (''b.json'', Inr nvme_sample)]
                   else Missing),
      clock = ''01/02/2025 03:04:05'', console = [], writes = [], log = []\<rparr>"

definition empty_world :: world where
  "empty_world =
     \<lparr>dirs = (\<lambda>p. Missing), clock = ''01/02/2025 03:04:05'', console = [], writes = [], log = []\<rparr>"

section \<open>Properties\<close>

subsection \<open>Shape of the extracted rows\<close>

lemma extract_ata_shape:
  "extract_ata_data d i = Inr r \<Longrightarrow> \<exists>h t s. r = [JInt i, JStr ''ATA'', h, t, s]"
  by (auto simp: extract_ata_data_def split: sum.splits)

lemma extract_nvme_shape:
  "extract_nvme_data d i = Inr r \<Longrightarrow> \<exists>h t. r = [JInt i, JStr ''NVMe'', h, t, NA]"
  by (auto simp: extract_nvme_data_def split: sum.splits)

text \<open>One step of the aggregation loop, read backwards from a run that returned.\<close>

lemma analyze_loop_Cons:
  assumes "analyze_loop idx (d # ds) acc = Inr rep"
  obtains
    (ata) r where "py_contains ''ata_smart_attributes'' d = Inr True"
      and "extract_ata_data d idx = Inr r"
      and "analyze_loop (idx + 1) ds
             (acc\<lparr>ata_data := ata_data acc @ [drop 1 r], all_data := all_data acc @ [r]\<rparr>) = Inr rep"
  | (nvme) r where "py_contains ''ata_smart_attributes'' d = Inr False"
      and "py_contains ''nvme_smart_health_information'' d = Inr True"
      and "extract_nvme_data d idx = Inr r"
      and "analyze_loop (idx + 1) ds
             (acc\<lparr>nvme_data := nvme_data acc @ [drop 1 r], all_data := all_data acc @ [r]\<rparr>) = Inr rep"
  | (other) "py_contains ''ata_smart_attributes'' d = Inr False"
      and "py_contains ''nvme_smart_health_information'' d = Inr False"
      and "analyze_loop (idx + 1) ds acc = Inr rep"
  using assms by (auto split: sum.splits if_splits)

lemma analyze_loop_seq:
  "analyze_loop idx ds acc = Inr rep \<Longrightarrow>
     map hd (all_data rep) = map hd (all_data acc) @ map JInt (recognized_positions idx ds)"
proof (induction ds arbitrary: idx acc)
  case Nil
  then show ?case by simp
next
  case (Cons d ds)
  from Cons.prems show ?case
  proof (cases rule: analyze_loop_Cons)
    case (ata r)
    from extract_ata_shape[OF ata(2)] have "hd r = JInt idx" by auto
    moreover have "recognized d" using ata(1) by (simp add: recognized_def)
    ultimately show ?thesis using Cons.IH[OF ata(3)] by simp
  next
    case (nvme r)
    from extract_nvme_shape[OF nvme(3)] have "hd r = JInt idx" by auto
    moreover have "recognized d" using nvme(2) by (simp add: recognized_def)
    ultimately show ?thesis using Cons.IH[OF nvme(4)] by simp
  next
    case other
    then have "\<not> recognized d" by (simp add: recognized_def)
    then show ?thesis using Cons.IH[OF other(3)] by simp
  qed
qed

lemma recognized_positions_bounds:
  "n \<in> set (recognized_positions idx ds) \<Longrightarrow> idx \<le> n \<and> n < idx + int (length ds)"
  by (induction ds arbitrary: idx) (fastforce split: if_splits)+

lemma recognized_positions_sorted: "sorted_wrt (<) (recognized_positions idx ds)"
  by (induction ds arbitrary: idx) (auto dest: recognized_positions_bounds)

lemma recognized_positions_all:
  "\<forall>d \<in> set ds. recognized d \<Longrightarrow>
     recognized_positions idx ds = [idx .. idx + int (length ds) - 1]"
  by (induction ds arbitrary: idx) (auto simp: upto_rec1)

lemma analyze_samples:
  "analyze_data [ata_sample, nvme_sample] =
     Inr \<lparr>ata_data = [[JStr ''ATA'', JInt 40000, JInt 55, JInt 3]],
          nvme_data = [[JStr ''NVMe'', JInt 100, JInt 30, NA]],
          all_data = [[JInt 1, JStr ''ATA'', JInt 40000, JInt 55, JInt 3],
                      [JInt 2, JStr ''NVMe'', JInt 100, JInt 30, NA]]\<rparr>"
  by (simp add: analyze_data_def empty_analyzed_def ata_sample_def nvme_sample_def
      extract_ata_data_def extract_nvme_data_def is_reallocated_entry_def)

subsection \<open>Missing blocks in an ATA record\<close>

text \<open>
  Claim C1 says that extraction of a record classified as ATA or NVMe never raises for a
  missing field: an absent power-on-time block, temperature block, attribute table or
  sub-field gives the sentinel \<^verbatim>\<open>"N/A"\<close> and a row is still returned. The extractor
  reads the two blocks and the table by subscript, so on an ATA record of a disk that reports
  no temperature it raises \<^verbatim>\<open>KeyError\<close>, and so does the aggregation of a load holding
  that record: no row is returned.
\<close>

theorem missing_temperature_block_raises:
  "py_contains ''ata_smart_attributes'' ata_without_temperature = Inr True
   \<and> extract_ata_data ata_without_temperature 1 = Inl (KeyError ''temperature'')
   \<and> analyze_data [ata_without_temperature] = Inl (KeyError ''temperature'')"
  by (simp add: ata_without_temperature_def extract_ata_data_def analyze_data_def)

subsection \<open>Sequence numbers of the full view\<close>

text \<open>
  Claim C2, as amended: when aggregation returns, the sequence numbers of the rows of the
  full view are the 1-based load positions of the recognized records, in load order. They
  are strictly increasing, have no duplicates and lie between 1 and the number of loaded
  records; when every loaded record is recognized they are 1, 2, ... up to that number,
  so that the k-th row carries k. A record of neither family uses up its position.
\<close>

theorem sequence_numbers_are_load_positions:
  assumes "analyze_data json_data = Inr rep"
  shows "map hd (all_data rep) = map JInt (recognized_positions 1 json_data)
    \<and> sorted_wrt (<) (recognized_positions 1 json_data)
    \<and> distinct (recognized_positions 1 json_data)
    \<and> set (recognized_positions 1 json_data) \<subseteq> {1 .. int (length json_data)}
    \<and> ((\<forall>d \<in> set json_data. recognized d) \<longrightarrow>
          recognized_positions 1 json_data = [1 .. int (length json_data)])"
proof -
  have "map hd (all_data rep) = map JInt (recognized_positions 1 json_data)"
    using analyze_loop_seq[of 1 json_data empty_analyzed rep] assms
    by (simp add: analyze_data_def empty_analyzed_def)
  moreover have s: "sorted_wrt (<) (recognized_positions 1 json_data)"
    by (rule recognized_positions_sorted)
  moreover have "distinct (recognized_positions 1 json_data)"
    using s by (simp add: strict_sorted_iff)
  moreover have "set (recognized_positions 1 json_data) \<subseteq> {1 .. int (length json_data)}"
    using recognized_positions_bounds[of _ 1 json_data] by fastforce
  moreover have "(\<forall>d \<in> set json_data. recognized d) \<longrightarrow>
          recognized_positions 1 json_data = [1 .. int (length json_data)]"
    using recognized_positions_all[of json_data 1] by simp
  ultimately show ?thesis by blast
qed

text \<open>The theorem at the load of the two sample devices.\<close>

theorem sequence_numbers_are_load_positions_witness:
  "analyze_data [ata_sample, nvme_sample] =
     Inr \<lparr>ata_data = [[JStr ''ATA'', JInt 40000, JInt 55, JInt 3]],
          nvme_data = [[JStr ''NVMe'', JInt 100, JInt 30, NA]],
          all_data = [[JInt 1, JStr ''ATA'', JInt 40000, JInt 55, JInt 3],
                      [JInt 2, JStr ''NVMe'', JInt 100, JInt 30, NA]]\<rparr>
   \<and> recognized ata_sample \<and> recognized nvme_sample
   \<and> recognized_positions 1 [ata_sample, nvme_sample] = [1, 2]"
proof -
  have r: "\<forall>d \<in> set [ata_sample, nvme_sample]. recognized d"
    by (simp add: recognized_def ata_sample_def nvme_sample_def)
  have "[1 .. int (length [ata_sample, nvme_sample])] = [1, 2]"
    by (simp add: upto_rec1)
  with sequence_numbers_are_load_positions[OF analyze_samples] r analyze_samples
  show ?thesis by simp
qed

text \<open>
  With a record of neither family loaded first, the only row of the full view carries the
  sequence number 2: the numbers neither start at 1 nor give the k-th row the number k.
\<close>

theorem sequence_number_gap_counterexample:
  "analyze_data [other_sample, nvme_sample] =
     Inr \<lparr>ata_data = [],
          nvme_data = [[JStr ''NVMe'', JInt 100, JInt 30, NA]],
          all_data = [[JInt 2, JStr ''NVMe'', JInt 100, JInt 30, NA]]\<rparr>"
  by (simp add: analyze_data_def empty_analyzed_def other_sample_def nvme_sample_def
      extract_nvme_data_def)

subsection \<open>What the presenters leave behind\<close>

lemma print_fields [simp]:
  "writes (print s w) = writes w" "log (print s w) = log w"
  "console (print s w) = console w @ [Print s]" "clock (print s w) = clock w"
  by (simp_all add: print_def)

lemma write_file_fields [simp]:
  "writes (write_file p c w) = writes w @ [(p, c)]" "log (write_file p c w) = log w"
  "console (write_file p c w) = console w" "clock (write_file p c w) = clock w"
  by (simp_all add: write_file_def)

lemma logging_error_fields [simp]:
  "writes (logging_error s w) = writes w" "log (logging_error s w) = log w @ [s]"
  "console (logging_error s w) = console w" "clock (logging_error s w) = clock w"
  by (simp_all add: logging_error_def)

lemma display_report_fields [simp]:
  "writes (display_report a w) = writes w" "log (display_report a w) = log w"
  "clock (display_report a w) = clock w"
  by (simp_all add: display_report_def Let_def)

lemma load_loop_fields:
  "writes (snd (load_loop d es acc w)) = writes w"
  "console (snd (load_loop d es acc w)) = console w"
  by (induction d es acc w rule: load_loop.induct) (simp_all split: sum.splits)

lemma load_json_data_fields:
  "writes (snd (load_json_data m w)) = writes w"
  "console (snd (load_json_data m w)) = console w"
  by (simp_all add: load_json_data_def split_beta load_loop_fields split: dir_state.splits)

lemma run_writes:
  assumes "load_json_data m w = (Inr json_data, w1)" and "json_data \<noteq> []"
    and "analyze_data json_data = Inr a"
  shows "fst (run m w) = Inr True"
    and "map fst (writes (snd (run m w))) = map fst (writes w) @ [output_file m, ''report.html'']"
    and "console (snd (run m w)) =
           console (display_report a w1)
             @ [Print (''Report saved to '' @ output_file m @ ''!''),
                Print ''HTML report saved to report.html!'']"
  using assms load_json_data_fields(1)[of m w]
  by (simp_all add: run_def save_report_def generate_html_report_def)

lemma load_sample_world:
  "load_json_data \<lparr>json_dir = ''disk_exs'', output_file = out, log_file = lg\<rparr> sample_world
     = (Inr [ata_sample, nvme_sample], sample_world)"
  by (simp add: load_json_data_def sample_world_def suffix_def)

subsection \<open>The \<^verbatim>\<open>--html\<close> flag\<close>

text \<open>
  Claim C3 says that the HTML report is written only when \<^verbatim>\<open>--html\<close> is given. The
  flag is parsed and never read: with the default arguments, where it is off, the run over
  the two sample devices writes \<^verbatim>\<open>report.csv\<close> and then \<^verbatim>\<open>report.html\<close>, and
  turning the flag on changes nothing.
\<close>

theorem html_written_without_flag:
  "arg_html default_args = False
   \<and> fst (main default_args sample_world) = Inr True
   \<and> map fst (writes (snd (main default_args sample_world))) = [''report.csv'', ''report.html'']
   \<and> main (default_args\<lparr>arg_html := True\<rparr>) sample_world = main default_args sample_world"
proof -
  have "writes sample_world = []" by (simp add: sample_world_def)
  with run_writes(1,2)[OF load_sample_world _ analyze_samples, of "''report.csv''" "''error_log.txt''"]
  show ?thesis by (simp add: main_def default_args_def)
qed

subsection \<open>The NVMe table on the console\<close>

text \<open>
  Claim C7 says that each NVMe row printed on the console carries exactly the three fields
  Type, Power-on Hours and Temperature. The rows handed to the table printer are the
  extracted rows without their sequence number, so the NVMe row of the sample run has four
  cells, the last one \<^verbatim>\<open>"N/A"\<close>, against three headers; the printer then shows four
  columns, the headers moved to the last three.
\<close>

theorem nvme_console_rows_keep_fourth_cell:
  "fst (main default_args sample_world) = Inr True
   \<and> console (snd (main default_args sample_world)) ! 3
        = PrintTable [[JStr ''NVMe'', JInt 100, JInt 30, JStr ''N/A'']]
            [''Type'', ''Power-on Hours'', ''Temperature'']
   \<and> tabulate_headers [[JStr ''NVMe'', JInt 100, JInt 30, JStr ''N/A'']]
        [''Type'', ''Power-on Hours'', ''Temperature'']
        = [[], ''Type'', ''Power-on Hours'', ''Temperature'']"
proof -
  have "console sample_world = []" by (simp add: sample_world_def)
  with run_writes(1,3)[OF load_sample_world _ analyze_samples, of "''report.csv''" "''error_log.txt''"]
  show ?thesis
    by (simp add: main_def default_args_def display_report_def Let_def nvme_headers_def
        ata_headers_def NA_def tabulate_headers_def)
qed

subsection \<open>A run without data\<close>

text \<open>
  Claim C8: when the input directory does not exist, the loader returns the empty sequence
  without raising and logs an error naming the path; and whenever the loader returns no
  record, the run prints the message \<^verbatim>\<open>No data found\<close>, returns false and writes no
  file.
\<close>

theorem no_data_no_output:
  "(dirs w (json_dir m) = Missing \<longrightarrow>
      fst (load_json_data m w) = Inr []
      \<and> log (snd (load_json_data m w)) = log w @ [''Directory '' @ json_dir m @ '' not found.''])
   \<and> (fst (load_json_data m w) = Inr [] \<longrightarrow>
        fst (run m w) = Inr False
        \<and> console (snd (run m w)) = console w @ [Print ''No data found. Verify the JSON files directory.'']
        \<and> writes (snd (run m w)) = writes w)"
  using load_json_data_fields[of m w]
  by (auto simp: load_json_data_def run_def split: prod.splits)

text \<open>The theorem at a world without the input directory.\<close>

theorem no_data_no_output_witness:
  "dirs empty_world ''disk_exs'' = Missing
   \<and> fst (load_json_data \<lparr>json_dir = ''disk_exs'', output_file = ''report.csv'', log_file = ''error_log.txt''\<rparr> empty_world) = Inr []
   \<and> log (snd (load_json_data \<lparr>json_dir = ''disk_exs'', output_file = ''report.csv'', log_file = ''error_log.txt''\<rparr> empty_world))
        = [''Directory disk_exs not found.'']
   \<and> fst (run \<lparr>json_dir = ''disk_exs'', output_file = ''report.csv'', log_file = ''error_log.txt''\<rparr> empty_world) = Inr False
   \<and> console (snd (run \<lparr>json_dir = ''disk_exs'', output_file = ''report.csv'', log_file = ''error_log.txt''\<rparr> empty_world))
        = [Print ''No data found. Verify the JSON files directory.'']
   \<and> writes (snd (run \<lparr>json_dir = ''disk_exs'', output_file = ''report.csv'', log_file = ''error_log.txt''\<rparr> empty_world)) = []"
proof -
  have m: "dirs empty_world ''disk_exs'' = Missing" "log empty_world = []"
    "console empty_world = []" "writes empty_world = []"
    by (simp_all add: empty_world_def)
  with no_data_no_output[of empty_world
      "\<lparr>json_dir = ''disk_exs'', output_file = ''report.csv'', log_file = ''error_log.txt''\<rparr>"]
  show ?thesis by simp
qed

subsection \<open>The scan of the attribute table\<close>







subsection \<open>The markup of one cell\<close>

lemma py_int_NA: "py_int ''N/A'' = None"
  by (simp add: py_int_def strip_def is_space_def parse_unsigned_def is_digit_def)

lemma py_int_0: "py_int ''0'' = Some 0"
  by (simp add: py_int_def strip_def is_space_def parse_unsigned_def is_digit_def digit_val_def
      max_str_digits_def)

lemma html_cell_cases: "html_cell headers i s \<in> {td_plain s, td_warning s, td_danger s}"
  by (simp add: html_cell_def split: option.splits)

subsection \<open>The loops of the HTML table generator in closed form\<close>

lemma html_header_cells_eq:
  "html_header_cells hs t = t @ concat (map (\<lambda>h. ''<th>'' @ h @ ''</th>'') hs)"
  by (induction hs arbitrary: t) simp_all

lemma html_cells_eq:
  "html_cells hs i r t =
     t @ concat (map (\<lambda>(j, c). html_cell hs j (py_str c)) (enumerate i (take (length hs - i) r)))"
proof (induction r arbitrary: i t)
  case Nil
  then show ?case by simp
next
  case (Cons c r)
  show ?case
  proof (cases "i \<ge> length hs")
    case True
    then show ?thesis using Cons.IH[of "i + 1" t] by simp
  next
    case False
    then obtain k where k: "length hs - i = Suc k" "length hs - (i + 1) = k"
      by (cases "length hs - i") auto
    with False show ?thesis using Cons.IH[of "i + 1"] by simp
  qed
qed

lemma html_rows_eq:
  "html_rows hs data t =
     t @ concat (map (\<lambda>r. ''<tr>'' @ concat (map (\<lambda>(j, c). html_cell hs j (py_str c))
                                            (enumerate 0 (take (length hs) r))) @ ''</tr>\<newline>'') data)"
  by (induction data arbitrary: t) (simp_all add: html_cells_eq)

lemma generate_html_table_eq:
  "generate_html_table data hs =
     ''<table>\<newline><tr>'' @ concat (map (\<lambda>h. ''<th>'' @ h @ ''</th>'') hs) @ ''</tr>\<newline>''
       @ concat (map (\<lambda>r. ''<tr>'' @ concat (map (\<lambda>(j, c). html_cell hs j (py_str c))
                                            (enumerate 0 (take (length hs) r))) @ ''</tr>\<newline>'') data)
       @ ''</table>''"
  by (simp add: generate_html_table_def html_rows_eq html_header_cells_eq)

lemma analyze_loop_nvme_rows:
  "analyze_loop idx ds acc = Inr rep \<Longrightarrow>
   \<forall>r \<in> set (nvme_data acc). \<exists>h t. r = [JStr ''NVMe'', h, t, NA] \<Longrightarrow>
   \<forall>r \<in> set (nvme_data rep). \<exists>h t. r = [JStr ''NVMe'', h, t, NA]"
proof (induction ds arbitrary: idx acc)
  case Nil
  then show ?case by simp
next
  case (Cons d ds)
  from Cons.prems(1) show ?case
  proof (cases rule: analyze_loop_Cons)
    case (ata r)
    show ?thesis by (rule Cons.IH[OF ata(3)]) (use Cons.prems(2) in simp)
  next
    case (nvme r)
    from extract_nvme_shape[OF nvme(3)] obtain h t where "r = [JInt idx, JStr ''NVMe'', h, t, NA]"
      by blast
    then show ?thesis using Cons.prems(2) by (intro Cons.IH[OF nvme(4)]) auto
  next
    case other
    show ?thesis by (rule Cons.IH[OF other(3)]) (use Cons.prems(2) in simp)
  qed
qed

subsection \<open>Styles of the cells in the generated tables\<close>

lemma digit_char_lt10:
  assumes "m < 10"
  shows "is_digit (digit_char m)" "digit_val (digit_char m) = m"
proof -
  from assms have "m = 0 \<or> m = 1 \<or> m = 2 \<or> m = 3 \<or> m = 4 \<or> m = 5 \<or> m = 6 \<or> m = 7 \<or> m = 8 \<or> m = 9"
    by arith
  then show "is_digit (digit_char m)" "digit_val (digit_char m) = m"
    by (auto simp: digit_char_def is_digit_def digit_val_def)
qed

lemma digits_value_foldl:
  "\<forall>c \<in> set ds. is_digit c \<Longrightarrow>
     digits_value acc ds = Some (foldl (\<lambda>a c. 10 * a + digit_val c) acc ds)"
  by (induction acc ds rule: digits_value.induct) simp_all

lemma nat_digits_props:
  "nat_digits n \<noteq> [] \<and> (\<forall>c \<in> set (nat_digits n). is_digit c)
   \<and> foldl (\<lambda>a c. 10 * a + digit_val c) 0 (nat_digits n) = n"
proof (induction n rule: nat_digits.induct)
  case (1 n)
  show ?case
  proof (cases "n < 10")
    case True
    then show ?thesis
      using digit_char_lt10[of n] by (simp add: nat_digits.simps[of n])
  next
    case False
    have m: "n mod 10 < 10" by simp
    from False 1 show ?thesis
      using digit_char_lt10[OF m] by (simp add: nat_digits.simps[of n])
  qed
qed

lemma length_nat_digits: "n < 10 ^ k \<Longrightarrow> 0 < k \<Longrightarrow> length (nat_digits n) \<le> k"
proof (induction n arbitrary: k rule: nat_digits.induct)
  case (1 n)
  show ?case
  proof (cases "n < 10")
    case True
    with 1 show ?thesis by (simp add: nat_digits.simps[of n] Suc_leI)
  next
    case False
    with "1.prems" obtain k' where k: "k = Suc k'" by (cases k) auto
    with False "1.prems" have "0 < k'" by (cases k') auto
    moreover from "1.prems" k have "n div 10 < 10 ^ k'"
      by (simp add: less_mult_imp_div_less mult.commute)
    ultimately have "length (nat_digits (n div 10)) \<le> k'"
      using "1.IH"[OF False] by simp
    with False k show ?thesis by (simp add: nat_digits.simps[of n])
  qed
qed

lemma parse_unsigned_all_digits:
  assumes "ds \<noteq> []" and "\<forall>c \<in> set ds. is_digit c"
  shows "parse_unsigned ds =
     (if length ds > max_str_digits then None
      else Some (foldl (\<lambda>a c. 10 * a + digit_val c) 0 ds))"
proof -
  from assms obtain c cs where cs: "ds = c # cs" by (cases ds) auto
  from assms(2) have f: "filter is_digit ds = ds" by (simp add: filter_id_conv)
  from assms(2) cs have d: "is_digit c" "\<forall>c \<in> set cs. is_digit c" by auto
  show ?thesis
    unfolding parse_unsigned_def cs[symmetric] f
    using d by (simp add: cs digits_value_foldl)
qed

lemma is_digit_not_space: "is_digit c \<Longrightarrow> \<not> is_space c"
  by (auto simp: is_digit_def is_space_def)

lemma strip_id:
  assumes "s \<noteq> []" and "\<not> is_space (hd s)" and "\<not> is_space (last s)"
  shows "strip s = s"
proof -
  from assms(1,2) have 1: "dropWhile is_space s = s" by (cases s) auto
  from assms(1,3) have 2: "dropWhile is_space (rev s) = rev s"
    by (cases "rev s") (auto simp: hd_rev)
  show ?thesis by (simp add: strip_def 1 2)
qed

lemma py_int_all_digits:
  assumes "ds \<noteq> []" and "\<forall>c \<in> set ds. is_digit c"
  shows "py_int ds =
     (if length ds > max_str_digits then None
      else Some (int (foldl (\<lambda>a c. 10 * a + digit_val c) 0 ds)))"
proof -
  from assms obtain c cs where cs: "ds = c # cs" by (cases ds) auto
  from assms have "\<not> is_space (hd ds)" "\<not> is_space (last ds)"
    using is_digit_not_space by auto
  with assms(1) have st: "strip ds = ds" by (rule strip_id)
  from assms(2) cs have "is_digit c" by simp
  then have c: "c \<noteq> CHR ''-''" "c \<noteq> CHR ''+''" by (auto simp: is_digit_def)
  have "py_int ds = map_option int (parse_unsigned ds)"
    unfolding py_int_def st using c by (simp add: cs)
  then show ?thesis using parse_unsigned_all_digits[OF assms] by simp
qed

lemma max_str_digits_pos: "0 < max_str_digits"
  by (simp add: max_str_digits_def)

lemma py_int_int_str:
  assumes "- (10 ^ max_str_digits) < i" and "i < 10 ^ max_str_digits"
  shows "py_int (int_str i) = Some i"
proof (cases "i < 0")
  case False
  let ?ds = "nat_digits (nat i)"
  from False assms(2) have "nat i < 10 ^ max_str_digits"
    by (simp add: nat_less_iff)
  then have len: "length ?ds \<le> max_str_digits"
    using max_str_digits_pos by (rule length_nat_digits)
  from False show ?thesis
    using py_int_all_digits[of ?ds] nat_digits_props[of "nat i"] len
    by (simp add: int_str_def)
next
  case True
  let ?ds = "nat_digits (nat (- i))"
  from True assms(1) have "nat (- i) < 10 ^ max_str_digits"
    by (simp add: nat_less_iff)
  then have len: "length ?ds \<le> max_str_digits"
    using max_str_digits_pos by (rule length_nat_digits)
  from nat_digits_props[of "nat (- i)"] have ne: "?ds \<noteq> []" and dig: "\<forall>c \<in> set ?ds. is_digit c"
    and v: "foldl (\<lambda>a c. 10 * a + digit_val c) 0 ?ds = nat (- i)"
    by auto
  from ne dig have "\<not> is_space (last ?ds)" using is_digit_not_space by auto
  with ne have "strip (CHR ''-'' # ?ds) = CHR ''-'' # ?ds"
    by (intro strip_id) (auto simp: is_space_def)
  then have "py_int (CHR ''-'' # ?ds) = map_option (\<lambda>n. - int n) (parse_unsigned ?ds)"
    by (simp add: py_int_def)
  with True show ?thesis
    using parse_unsigned_all_digits[OF ne dig] len v by (simp add: int_str_def)
qed

lemma py_int_too_long:
  assumes "\<forall>c \<in> set ds. is_digit c" and "length ds > max_str_digits"
  shows "py_int ds = None"
proof -
  from assms(2) have "ds \<noteq> []" by auto
  from py_int_all_digits[OF this assms(1)] assms(2) show ?thesis
    by simp
qed

lemma sample_strs:
  "py_str (JInt 3) = ''3''" "py_str (JInt 55) = ''55''" "py_str (JInt 40000) = ''40000''"
  "py_str (JStr s) = s"
  by (simp_all add: py_str_def int_str_def nat_digits.simps digit_char_def)

lemma sample_below_limit: "- (10 ^ max_str_digits) < (40000 :: int)" "(40000 :: int) < 10 ^ max_str_digits"
proof -
  have "(40000 :: int) < 10 ^ 5" by simp
  also have "\<dots> \<le> 10 ^ max_str_digits"
    by (rule power_increasing) (simp_all add: max_str_digits_def)
  finally show "(40000 :: int) < 10 ^ max_str_digits" .
  have "- (10 ^ max_str_digits) < (0 :: int)" by simp
  also have "(0 :: int) < 40000" by simp
  finally show "- (10 ^ max_str_digits) < (40000 :: int)" .
qed

text \<open>
  Claim C5: the generated table holds, for every row, the markup of each cell that has a
  header, in order. A cell whose text is \<^verbatim>\<open>0\<close> is rendered plain, so it never gets the
  warning style of the reallocated-sectors column; in both tables of the report a
  power-on-hours cell whose text reads as an integer above 30000 gets the warning style and
  a temperature cell whose text reads as an integer above 50 gets the danger style; and a
  cell whose text is \<^verbatim>\<open>N/A\<close>, or does not read as an integer, is rendered plain in
  every column. The text of an integer cell reads as that integer; a run of digits longer
  than the interpreter's limit does not read as an integer.
\<close>

theorem html_cell_styles:
  "generate_html_table data headers =
     ''<table>\<newline><tr>'' @ concat (map (\<lambda>h. ''<th>'' @ h @ ''</th>'') headers) @ ''</tr>\<newline>''
       @ concat (map (\<lambda>r. ''<tr>'' @ concat (map (\<lambda>(j, c). html_cell headers j (py_str c))
                                            (enumerate 0 (take (length headers) r))) @ ''</tr>\<newline>'') data)
       @ ''</table>''
   \<and> html_cell headers i ''0'' = td_plain ''0''
   \<and> (py_int s1 = Some n1 \<and> n1 > 30000 \<longrightarrow>
        html_cell ata_headers 1 s1 = td_warning s1 \<and> html_cell nvme_headers 1 s1 = td_warning s1)
   \<and> (py_int s2 = Some n2 \<and> n2 > 50 \<longrightarrow>
        html_cell ata_headers 2 s2 = td_danger s2 \<and> html_cell nvme_headers 2 s2 = td_danger s2)
   \<and> html_cell headers i ''N/A'' = td_plain ''N/A''
   \<and> (py_int s3 = None \<longrightarrow> html_cell headers i s3 = td_plain s3)
   \<and> (- (10 ^ max_str_digits) < k \<and> k < 10 ^ max_str_digits \<longrightarrow> py_int (py_str (JInt k)) = Some k)
   \<and> ((\<forall>c \<in> set ds. is_digit c) \<and> length ds > max_str_digits \<longrightarrow> py_int ds = None)"
proof -
  have "html_cell headers i ''0'' = td_plain ''0''"
    by (simp add: html_cell_def py_int_0)
  moreover have "html_cell ata_headers 1 s1 = td_warning s1 \<and> html_cell nvme_headers 1 s1 = td_warning s1"
    if "py_int s1 = Some n1" "n1 > 30000"
  proof -
    from that have "s1 \<noteq> ''N/A''" using py_int_NA by auto
    with that show ?thesis by (simp add: html_cell_def ata_headers_def nvme_headers_def)
  qed
  moreover have "html_cell ata_headers 2 s2 = td_danger s2 \<and> html_cell nvme_headers 2 s2 = td_danger s2"
    if "py_int s2 = Some n2" "n2 > 50"
  proof -
    from that have "s2 \<noteq> ''N/A''" using py_int_NA by auto
    with that show ?thesis by (simp add: html_cell_def ata_headers_def nvme_headers_def)
  qed
  moreover have "html_cell headers i ''N/A'' = td_plain ''N/A''"
    by (simp add: html_cell_def)
  moreover have "html_cell headers i s3 = td_plain s3" if "py_int s3 = None"
    using that by (simp add: html_cell_def)
  moreover have "py_int (py_str (JInt k)) = Some k"
    if "- (10 ^ max_str_digits) < k" "k < 10 ^ max_str_digits"
    using that by (simp add: py_str_def py_int_int_str)
  moreover have "py_int ds = None" if "\<forall>c \<in> set ds. is_digit c" "length ds > max_str_digits"
    using that by (rule py_int_too_long)
  ultimately show ?thesis using generate_html_table_eq[of data headers] by blast
qed

text \<open>
  The theorem at the row of the sample ATA device, at the text 36.6 and at a run of nines
  one longer than the limit.
\<close>

theorem html_cell_styles_witness:
  \<open>py_int ''40000'' = Some 40000 \<and> (40000 :: int) > 30000
   \<and> py_int ''55'' = Some 55 \<and> (55 :: int) > 50
   \<and> py_int ''36.6'' = None
   \<and> - (10 ^ max_str_digits) < (40000 :: int) \<and> (40000 :: int) < 10 ^ max_str_digits
   \<and> py_int (py_str (JInt 40000)) = Some 40000
   \<and> set (replicate (Suc max_str_digits) (CHR ''9'')) = {CHR ''9''} \<and> is_digit (CHR ''9'')
   \<and> length (replicate (Suc max_str_digits) (CHR ''9'')) > max_str_digits
   \<and> py_int (replicate (Suc max_str_digits) (CHR ''9'')) = None
   \<and> html_cell ata_headers 1 (replicate (Suc max_str_digits) (CHR ''9''))
       = td_plain (replicate (Suc max_str_digits) (CHR ''9''))
   \<and> html_cell ata_headers 2 ''36.6'' = ''<td>36.6</td>''
   \<and> html_cell ata_headers 3 ''0'' = ''<td>0</td>''
   \<and> html_cell ata_headers 3 ''N/A'' = ''<td>N/A</td>''
   \<and> generate_html_table [[JStr ''ATA'', JInt 40000, JInt 55, JInt 3]] ata_headers =
       ''<table>\<newline><tr><th>Type</th><th>Power-on Hours</th><th>Temperature</th><th>Reallocated Sectors</th></tr>\<newline>'' @
       ''<tr><td>ATA</td><td class="warning">40000</td><td class="danger">55</td><td class="warning">3</td></tr>\<newline>'' @
       ''</table>''\<close>
proof -
  let ?nines = "replicate (Suc max_str_digits) (CHR ''9'')"
  have p: "py_int ''40000'' = Some 40000" "py_int ''55'' = Some 55" "py_int ''36.6'' = None"
    "py_int ''3'' = Some 3" "py_int ''ATA'' = None"
    by (simp_all add: py_int_def strip_def is_space_def parse_unsigned_def is_digit_def digit_val_def
      max_str_digits_def)
  have nines: "set ?nines = {CHR ''9''}" "is_digit (CHR ''9'')" "length ?nines > max_str_digits"
    by (rule set_replicate_Suc) (simp_all add: is_digit_def)
  note T = html_cell_styles[of "[[JStr ''ATA'', JInt 40000, JInt 55, JInt 3]]" ata_headers 3
      "''40000''" 40000 "''55''" 55 "''36.6''" 40000 ?nines]
  from T nines have n1: "py_int ?nines = None" by simp
  note U = html_cell_styles[of "[]" ata_headers 1 "''40000''" 40000 "''55''" 55 ?nines 40000 ?nines]
  from U n1 have n2: "html_cell ata_headers 1 ?nines = td_plain ?nines" by blast
  note V = html_cell_styles[of "[]" ata_headers 2 "''40000''" 40000 "''55''" 55 "''36.6''" 40000 ?nines]
  from V p have c2: "html_cell ata_headers 2 ''36.6'' = td_plain ''36.6''" by blast
  from T p have c1: "html_cell ata_headers 1 ''40000'' = td_warning ''40000''"
    "html_cell ata_headers 2 ''55'' = td_danger ''55''"
    "html_cell ata_headers 3 ''0'' = td_plain ''0''" "html_cell ata_headers 3 ''N/A'' = td_plain ''N/A''"
    "py_int (py_str (JInt 40000)) = Some 40000"
    using sample_below_limit by simp_all
  have c3: "html_cell ata_headers 3 ''3'' = td_warning ''3''" "html_cell ata_headers 0 ''ATA'' = td_plain ''ATA''"
    by (simp_all add: html_cell_def ata_headers_def p)
  have c4: "html_cell ata_headers (Suc 0) ''40000'' = td_warning ''40000''"
    "html_cell ata_headers (Suc (Suc 0)) ''55'' = td_danger ''55''"
    "html_cell ata_headers (Suc (Suc (Suc 0))) ''3'' = td_warning ''3''"
    using c1(1,2) c3(1) by (simp_all add: numeral_2_eq_2 numeral_3_eq_3)
  have len: "length ata_headers = 4" by (simp add: ata_headers_def)
  have hd: "concat (map (\<lambda>h. ''<th>'' @ h @ ''</th>'') ata_headers)
      = ''<th>Type</th><th>Power-on Hours</th><th>Temperature</th><th>Reallocated Sectors</th>''"
    by (simp add: ata_headers_def)
  from T have eq: "generate_html_table [[JStr ''ATA'', JInt 40000, JInt 55, JInt 3]] ata_headers =
       ''<table>\<newline><tr>'' @ concat (map (\<lambda>h. ''<th>'' @ h @ ''</th>'') ata_headers) @ ''</tr>\<newline>''
       @ concat (map (\<lambda>r. ''<tr>'' @ concat (map (\<lambda>(j, c). html_cell ata_headers j (py_str c))
                                            (enumerate 0 (take (length ata_headers) r))) @ ''</tr>\<newline>'')
                   [[JStr ''ATA'', JInt 40000, JInt 55, JInt 3]])
       @ ''</table>''"
    by blast
  have g: \<open>generate_html_table [[JStr ''ATA'', JInt 40000, JInt 55, JInt 3]] ata_headers =
       ''<table>\<newline><tr><th>Type</th><th>Power-on Hours</th><th>Temperature</th><th>Reallocated Sectors</th></tr>\<newline>'' @
       ''<tr><td>ATA</td><td class="warning">40000</td><td class="danger">55</td><td class="warning">3</td></tr>\<newline>'' @
       ''</table>''\<close>
    unfolding eq len hd
    by (simp add: sample_strs c3 c4 td_plain_def td_warning_def td_danger_def)
  show ?thesis
    unfolding g using p nines n1 n2 c1 c2 sample_below_limit
    by (simp add: td_plain_def)
qed

subsection \<open>Cells beyond the headers\<close>

text \<open>
  Claim C10: the HTML table generator renders of every row only the cells that have a
  header, so the table of any rows is the table of the rows cut to the number of headers.
  Every NVMe display row the aggregator builds has four cells, the last one the sentinel
  \<^verbatim>\<open>"N/A"\<close>, and the NVMe table has three headers: the table is the one of the rows
  without their last cell.
\<close>

theorem html_drops_cells_beyond_headers:
  "generate_html_table data headers = generate_html_table (map (take (length headers)) data) headers
   \<and> (analyze_data json_data = Inr a \<longrightarrow>
        (\<forall>r \<in> set (nvme_data a). length r = 4 \<and> r ! 3 = JStr ''N/A'')
        \<and> generate_html_table (nvme_data a) nvme_headers
            = generate_html_table (map butlast (nvme_data a)) nvme_headers)"
proof -
  have 1: "generate_html_table data headers
      = generate_html_table (map (take (length headers)) data) headers"
    by (simp add: generate_html_table_eq comp_def)
  have 2: "(\<forall>r \<in> set (nvme_data a). length r = 4 \<and> r ! 3 = JStr ''N/A'')
        \<and> generate_html_table (nvme_data a) nvme_headers
            = generate_html_table (map butlast (nvme_data a)) nvme_headers"
    if "analyze_data json_data = Inr a"
  proof -
    from that have shape: "\<forall>r \<in> set (nvme_data a). \<exists>h t. r = [JStr ''NVMe'', h, t, NA]"
      using analyze_loop_nvme_rows[of 1 json_data empty_analyzed a]
      by (simp add: analyze_data_def empty_analyzed_def)
    then have "\<forall>r \<in> set (nvme_data a). take (length nvme_headers) r = butlast r"
      by (auto simp: nvme_headers_def)
    then have m: "map (take (length nvme_headers)) (nvme_data a) = map butlast (nvme_data a)"
      by simp
    have g: "generate_html_table (nvme_data a) nvme_headers
      = generate_html_table (map (take (length nvme_headers)) (nvme_data a)) nvme_headers"
      by (simp add: generate_html_table_eq comp_def)
    have "generate_html_table (nvme_data a) nvme_headers
      = generate_html_table (map butlast (nvme_data a)) nvme_headers"
      using g m by (simp only:)
    moreover from shape have "\<forall>r \<in> set (nvme_data a). length r = 4 \<and> r ! 3 = JStr ''N/A''"
      by (auto simp: NA_def)
    ultimately show ?thesis by blast
  qed
  from 1 2 show ?thesis by blast
qed

text \<open>The theorem at the aggregation of the two sample devices.\<close>

theorem html_drops_cells_beyond_headers_witness:
  \<open>analyze_data [ata_sample, nvme_sample] =
     Inr \<lparr>ata_data = [[JStr ''ATA'', JInt 40000, JInt 55, JInt 3]],
          nvme_data = [[JStr ''NVMe'', JInt 100, JInt 30, NA]],
          all_data = [[JInt 1, JStr ''ATA'', JInt 40000, JInt 55, JInt 3],
                      [JInt 2, JStr ''NVMe'', JInt 100, JInt 30, NA]]\<rparr>
   \<and> generate_html_table [[JStr ''NVMe'', JInt 100, JInt 30, JStr ''N/A'']] nvme_headers
      = generate_html_table [[JStr ''NVMe'', JInt 100, JInt 30]] nvme_headers\<close>
  using html_drops_cells_beyond_headers[of "[[JStr ''NVMe'', JInt 100, JInt 30, JStr ''N/A'']]"
      nvme_headers "[ata_sample, nvme_sample]"
      "\<lparr>ata_data = [[JStr ''ATA'', JInt 40000, JInt 55, JInt 3]],
          nvme_data = [[JStr ''NVMe'', JInt 100, JInt 30, NA]],
          all_data = [[JInt 1, JStr ''ATA'', JInt 40000, JInt 55, JInt 3],
                      [JInt 2, JStr ''NVMe'', JInt 100, JInt 30, NA]]\<rparr>"]
    analyze_samples
  by (simp add: NA_def nvme_headers_def)

subsection \<open>No escaping\<close>

lemma sublist_concat_map:
  "x \<in> set xs \<Longrightarrow> sublist (f x) (concat (map f xs))"
proof -
  assume "x \<in> set xs"
  then obtain ys zs where "xs = ys @ x # zs" by (auto dest: split_list)
  then have "concat (map f xs) = concat (map f ys) @ f x @ concat (map f zs)" by simp
  then show ?thesis unfolding sublist_def by blast
qed

lemma sublist_td:
  "sublist s (td_plain s)" "sublist s (td_warning s)" "sublist s (td_danger s)"
  unfolding td_plain_def td_warning_def td_danger_def sublist_def by blast+

text \<open>
  Claim C9: the markup of a cell is its text between an opening tag, plain or with one of
  the two classes, and the closing tag, with nothing done to the text; and for every cell of
  a row that has a header this markup, hence the text of the cell as \<^verbatim>\<open>str\<close> gives it,
  stands in the generated table as it is.
\<close>

theorem html_cell_text_verbatim:
  "html_cell headers i s \<in> {td_plain s, td_warning s, td_danger s}
   \<and> (r \<in> set data \<and> j < length r \<and> j < length headers \<longrightarrow>
        sublist (html_cell headers j (py_str (r ! j))) (generate_html_table data headers)
        \<and> sublist (py_str (r ! j)) (generate_html_table data headers))"
proof -
  have "sublist (html_cell headers j (py_str (r ! j))) (generate_html_table data headers)
        \<and> sublist (py_str (r ! j)) (generate_html_table data headers)"
    if r: "r \<in> set data" and j: "j < length r" "j < length headers"
  proof -
    let ?cell = "\<lambda>(j, c). html_cell headers j (py_str c)"
    let ?row = "\<lambda>r. ''<tr>'' @ concat (map ?cell (enumerate 0 (take (length headers) r))) @ ''</tr>\<newline>''"
    from j have "(j, r ! j) \<in> set (enumerate 0 (take (length headers) r))"
      by (auto simp: in_set_enumerate_eq)
    from sublist_concat_map[OF this, of ?cell]
    have "sublist (html_cell headers j (py_str (r ! j)))
            (concat (map ?cell (enumerate 0 (take (length headers) r))))"
      by simp
    then have "sublist (html_cell headers j (py_str (r ! j))) (?row r)"
      by (meson sublist_appendI sublist_order.order.trans)
    moreover have "sublist (?row r) (concat (map ?row data))"
      using r by (rule sublist_concat_map)
    moreover have "sublist (concat (map ?row data)) (generate_html_table data headers)"
      unfolding generate_html_table_eq sublist_def by (metis append.assoc)
    ultimately have a: "sublist (html_cell headers j (py_str (r ! j))) (generate_html_table data headers)"
      by (meson sublist_order.order.trans)
    have "sublist (py_str (r ! j)) (html_cell headers j (py_str (r ! j)))"
      using html_cell_cases[of headers j "py_str (r ! j)"] sublist_td[of "py_str (r ! j)"]
      by auto
    with a show ?thesis by (meson sublist_order.order.trans)
  qed
  with html_cell_cases show ?thesis by blast
qed

text \<open>The theorem at a cell whose text holds markup and an ampersand.\<close>

theorem html_cell_text_verbatim_witness:
  \<open>[JStr ''NVMe'', JStr ''<b>1 & 2</b>'', JInt 30, NA] \<in> set [[JStr ''NVMe'', JStr ''<b>1 & 2</b>'', JInt 30, NA]]
   \<and> (1 :: nat) < length [JStr ''NVMe'', JStr ''<b>1 & 2</b>'', JInt 30, NA]
   \<and> (1 :: nat) < length nvme_headers
   \<and> html_cell nvme_headers 1 ''<b>1 & 2</b>'' = ''<td><b>1 & 2</b></td>''
   \<and> sublist ''<td><b>1 & 2</b></td>''
        (generate_html_table [[JStr ''NVMe'', JStr ''<b>1 & 2</b>'', JInt 30, NA]] nvme_headers)\<close>
proof -
  have p: "py_int ''<b>1 & 2</b>'' = None"
    by (simp add: py_int_def strip_def is_space_def parse_unsigned_def is_digit_def)
  have c: \<open>html_cell nvme_headers 1 ''<b>1 & 2</b>'' = ''<td><b>1 & 2</b></td>''\<close>
    by (simp add: html_cell_def nvme_headers_def p td_plain_def)
  from html_cell_text_verbatim[of nvme_headers 1 "''<b>1 & 2</b>''"
      "[JStr ''NVMe'', JStr ''<b>1 & 2</b>'', JInt 30, NA]"
      "[[JStr ''NVMe'', JStr ''<b>1 & 2</b>'', JInt 30, NA]]" 1] c
  show ?thesis by (simp add: nvme_headers_def py_str_def)
qed

subsection \<open>The written file read back\<close>

lemma csv_events_plain:
  "c \<noteq> CHR 0x0D \<Longrightarrow> c \<noteq> CHR 0x0A \<Longrightarrow> csv_events b (c # t) = Ch c # csv_events True t"
  by (cases t) simp_all

lemma csv_events_LF: "csv_events b (CHR 0x0A # t) = Ch (CHR 0x0A) # EOL # csv_events False t"
  by (cases t) simp_all

lemma csv_events_CRLF:
  "csv_events b (CHR 0x0D # CHR 0x0A # t) = Ch (CHR 0x0D) # Ch (CHR 0x0A) # EOL # csv_events False t"
  by simp

lemma csv_events_CR:
  "t = [] \<or> hd t \<noteq> CHR 0x0A \<Longrightarrow>
     csv_events b (CHR 0x0D # t) = Ch (CHR 0x0D) # EOL # csv_events False t"
  by (cases t) auto

lemma csv_events_pending: "t \<noteq> [] \<Longrightarrow> csv_events b t = csv_events b' t"
  by (cases "(b, t)" rule: csv_events.cases) auto

text \<open>Inside a quoted field every character but the quote is kept, line ends included.\<close>

lemma reader_loop_quoted_char:
  assumes "c \<noteq> CHR 0x22" and "t \<noteq> []"
  shows "reader_loop (IN_QUOTED_FIELD, f, fs) (csv_events b (c # t)) recs
       = reader_loop (IN_QUOTED_FIELD, f @ [c], fs) (csv_events b' t) recs"
proof (cases "c = CHR 0x0A")
  case True
  with assms show ?thesis
    using csv_events_pending[of t False b'] by (simp add: csv_events_LF)
next
  case notLF: False
  show ?thesis
  proof (cases "c = CHR 0x0D")
    case True
    show ?thesis
    proof (cases "hd t = CHR 0x0A")
      case True
      with assms obtain t' where t: "t = CHR 0x0A # t'" by (cases t) auto
      show ?thesis using \<open>c = CHR 0x0D\<close>
        by (simp add: t csv_events_CRLF csv_events_LF del: csv_events.simps)
    next
      case False
      with assms \<open>c = CHR 0x0D\<close> show ?thesis
        using csv_events_pending[of t False b'] by (simp add: csv_events_CR del: csv_events.simps)
    qed
  next
    case False
    with notLF assms show ?thesis
      using csv_events_pending[of t True b'] by (simp add: csv_events_plain del: csv_events.simps)
  qed
qed

lemma reader_loop_quoted_body:
  "reader_loop (IN_QUOTED_FIELD, f, fs) (csv_events b (csv_escape s @ CHR 0x22 # rest)) recs
     = reader_loop (QUOTE_IN_QUOTED_FIELD, f @ s, fs) (csv_events True rest) recs"
proof (induction s arbitrary: f b)
  case Nil
  show ?case by (simp add: csv_events_plain del: csv_events.simps)
next
  case (Cons c s)
  show ?case
  proof (cases "c = CHR 0x22")
    case True
    then show ?thesis
      using Cons.IH[of "f @ [c]" True] by (simp add: csv_events_plain del: csv_events.simps)
  next
    case False
    then show ?thesis
      using reader_loop_quoted_char[of c "csv_escape s @ CHR 0x22 # rest" f fs b recs b]
        Cons.IH[of "f @ [c]" b]
      by simp
  qed
qed

lemma reader_loop_unquoted_chars:
  "\<not> list_ex csv_special s \<Longrightarrow> t \<noteq> [] \<Longrightarrow>
     reader_loop (IN_FIELD, f, fs) (csv_events b (s @ t)) recs
       = reader_loop (IN_FIELD, f @ s, fs) (csv_events b' t) recs"
proof (induction s arbitrary: f b)
  case Nil
  then show ?case using csv_events_pending[of t b b'] by simp
next
  case (Cons c s)
  from Cons.prems(1) have nc: "\<not> csv_special c" and s: "\<not> list_ex csv_special s"
    by simp_all
  from nc have c: "c \<noteq> CHR 0x0D" "c \<noteq> CHR 0x0A" "c \<noteq> CHR '',''" "c \<noteq> CHR 0x22"
    by (simp_all add: csv_special_def)
  show ?case
    using c Cons.IH[OF s Cons.prems(2), of "f @ [c]" True]
    by (simp add: csv_events_plain del: csv_events.simps)
qed

text \<open>A written field followed by a comma: the field is saved and the next one starts.\<close>

lemma reader_loop_field_comma:
  assumes "t \<noteq> []"
  shows "reader_loop (START_FIELD, [], fs) (csv_events b (csv_field s @ CHR '','' # t)) recs
       = reader_loop (START_FIELD, [], fs @ [s]) (csv_events b' t) recs"
proof (cases "list_ex csv_special s")
  case True
  then have "csv_field s @ CHR '','' # t = CHR 0x22 # csv_escape s @ CHR 0x22 # CHR '','' # t"
    by (simp add: csv_field_def)
  then show ?thesis
    using csv_events_pending[OF assms, of True b']
    by (simp add: csv_events_plain start_field_def reader_loop_quoted_body del: csv_events.simps)
next
  case False
  show ?thesis
  proof (cases s)
    case Nil
    then show ?thesis
      using csv_events_pending[OF assms, of True b']
      by (simp add: csv_field_def csv_events_plain start_field_def del: csv_events.simps)
  next
    case (Cons c s')
    with False have nc: "\<not> csv_special c" and s': "\<not> list_ex csv_special s'"
      by simp_all
    from nc have c: "c \<noteq> CHR 0x0D" "c \<noteq> CHR 0x0A" "c \<noteq> CHR '',''" "c \<noteq> CHR 0x22"
      by (simp_all add: csv_special_def)
    have "reader_loop (START_FIELD, [], fs) (csv_events b (c # s' @ CHR '','' # t)) recs
        = reader_loop (IN_FIELD, [c], fs) (csv_events True (s' @ CHR '','' # t)) recs"
      using c by (simp add: csv_events_plain start_field_def del: csv_events.simps)
    also have "\<dots> = reader_loop (IN_FIELD, [c] @ s', fs) (csv_events True (CHR '','' # t)) recs"
      by (rule reader_loop_unquoted_chars[OF s']) simp
    also have "\<dots> = reader_loop (START_FIELD, [], fs @ [s]) (csv_events b' t) recs"
      using csv_events_pending[OF assms, of True b'] Cons
      by (simp add: csv_events_plain del: csv_events.simps)
    finally show ?thesis using False Cons by (simp add: csv_field_def)
  qed
qed

text \<open>A written field followed by the end of the row: the record is complete.\<close>

lemma reader_loop_field_end:
  "reader_loop (START_FIELD, [], fs)
      (csv_events b (csv_field s @ CHR 0x0D # CHR 0x0A # t)) recs
     = reader_loop parse_reset (csv_events False t) (recs @ [fs @ [s]])"
proof (cases "list_ex csv_special s")
  case True
  then have "csv_field s @ CHR 0x0D # CHR 0x0A # t
      = CHR 0x22 # csv_escape s @ CHR 0x22 # CHR 0x0D # CHR 0x0A # t"
    by (simp add: csv_field_def)
  then show ?thesis
    by (simp add: csv_events_plain csv_events_CRLF start_field_def reader_loop_quoted_body
        del: csv_events.simps)
next
  case False
  show ?thesis
  proof (cases s)
    case Nil
    then show ?thesis
      by (simp add: csv_field_def csv_events_CRLF start_field_def del: csv_events.simps)
  next
    case (Cons c s')
    with False have nc: "\<not> csv_special c" and s': "\<not> list_ex csv_special s'"
      by simp_all
    from nc have c: "c \<noteq> CHR 0x0D" "c \<noteq> CHR 0x0A" "c \<noteq> CHR '',''" "c \<noteq> CHR 0x22"
      by (simp_all add: csv_special_def)
    have "reader_loop (START_FIELD, [], fs) (csv_events b (c # s' @ CHR 0x0D # CHR 0x0A # t)) recs
        = reader_loop (IN_FIELD, [c], fs) (csv_events True (s' @ CHR 0x0D # CHR 0x0A # t)) recs"
      using c by (simp add: csv_events_plain start_field_def del: csv_events.simps)
    also have "\<dots> = reader_loop (IN_FIELD, [c] @ s', fs) (csv_events True (CHR 0x0D # CHR 0x0A # t)) recs"
      by (rule reader_loop_unquoted_chars[OF s']) simp
    also have "\<dots> = reader_loop parse_reset (csv_events False t) (recs @ [fs @ [s]])"
      using Cons by (simp add: csv_events_CRLF del: csv_events.simps)
    finally show ?thesis using False Cons by (simp add: csv_field_def)
  qed
qed

lemma reader_loop_fields:
  "ss \<noteq> [] \<Longrightarrow>
     reader_loop (START_FIELD, [], fs)
        (csv_events b (csv_join (map csv_field ss) @ CHR 0x0D # CHR 0x0A # t)) recs
       = reader_loop parse_reset (csv_events False t) (recs @ [fs @ ss])"
proof (induction ss arbitrary: fs b)
  case Nil
  then show ?case by simp
next
  case (Cons s ss)
  show ?case
  proof (cases ss)
    case Nil
    then show ?thesis using reader_loop_field_end[of fs b s t recs] by simp
  next
    case (Cons s2 ss')
    then have ne: "ss \<noteq> []" by simp
    have "reader_loop (START_FIELD, [], fs)
        (csv_events b (csv_field s @ CHR '','' # (csv_join (map csv_field ss) @ CHR 0x0D # CHR 0x0A # t))) recs
      = reader_loop (START_FIELD, [], fs @ [s])
        (csv_events b (csv_join (map csv_field ss) @ CHR 0x0D # CHR 0x0A # t)) recs"
      by (rule reader_loop_field_comma) simp
    also have "\<dots> = reader_loop parse_reset (csv_events False t) (recs @ [(fs @ [s]) @ ss])"
      by (rule Cons.IH[OF ne])
    finally show ?thesis using Cons by simp
  qed
qed

text \<open>A written row never starts with a line end, unless it has no field at all.\<close>

lemma csv_field_first:
  "csv_field s = [] \<or> (\<exists>c u. csv_field s = c # u \<and> c \<noteq> CHR 0x0D \<and> c \<noteq> CHR 0x0A)"
proof (cases "list_ex csv_special s")
  case True
  then show ?thesis by (simp add: csv_field_def)
next
  case False
  then show ?thesis by (cases s) (auto simp: csv_field_def csv_special_def)
qed

lemma csv_field_empty: "csv_field s = [] \<Longrightarrow> s = []"
  by (simp add: csv_field_def split: if_splits)

lemma csv_join_first:
  assumes "ss \<noteq> []" and "ss \<noteq> [[]]"
  shows "\<exists>c u. csv_join (map csv_field ss) = c # u \<and> c \<noteq> CHR 0x0D \<and> c \<noteq> CHR 0x0A"
proof (cases ss)
  case Nil
  with assms show ?thesis by simp
next
  case (Cons s ss')
  show ?thesis
  proof (cases ss')
    case Nil
    with Cons assms have "s \<noteq> []" by simp
    then have "csv_field s \<noteq> []" using csv_field_empty by blast
    with csv_field_first[of s] Cons Nil show ?thesis by auto
  next
    case ss': (Cons s2 ss'')
    from csv_field_first[of s] show ?thesis
    proof
      assume "csv_field s = []"
      then show ?thesis using Cons ss' by simp
    next
      assume "\<exists>c u. csv_field s = c # u \<and> c \<noteq> CHR 0x0D \<and> c \<noteq> CHR 0x0A"
      then show ?thesis using Cons ss' by auto
    qed
  qed
qed

lemma reader_loop_start_record:
  "c \<noteq> CHR 0x0D \<Longrightarrow> c \<noteq> CHR 0x0A \<Longrightarrow>
     reader_loop parse_reset (csv_events b (c # u)) recs
       = reader_loop (START_FIELD, [], []) (csv_events b (c # u)) recs"
  by (simp add: parse_reset_def csv_events_plain del: csv_events.simps)

text \<open>One written row is read back as one record, the texts of its cells.\<close>

lemma reader_loop_row:
  "reader_loop parse_reset (csv_events b (csv_writerow r @ t)) recs
     = reader_loop parse_reset (csv_events False t) (recs @ [map csv_text r])"
proof (cases "r = []")
  case True
  then show ?thesis
    by (simp add: csv_writerow_def csv_events_CRLF parse_reset_def del: csv_events.simps)
next
  case False
  show ?thesis
  proof (cases "map csv_text r = [[]]")
    case True
    then show ?thesis
      by (simp add: csv_writerow_def csv_events_CRLF csv_events_plain parse_reset_def
          start_field_def del: csv_events.simps)
  next
    case single: False
    let ?ss = "map csv_text r"
    from False have ne: "?ss \<noteq> []" by simp
    from csv_join_first[OF ne single] obtain c u where
      cu: "csv_join (map csv_field ?ss) = c # u" and c: "c \<noteq> CHR 0x0D" "c \<noteq> CHR 0x0A"
      by blast
    have w: "csv_writerow r @ t = csv_join (map csv_field ?ss) @ CHR 0x0D # CHR 0x0A # t"
      using single by (simp add: csv_writerow_def comp_def)
    have "reader_loop parse_reset (csv_events b (csv_writerow r @ t)) recs
        = reader_loop (START_FIELD, [], []) (csv_events b (csv_join (map csv_field ?ss) @ CHR 0x0D # CHR 0x0A # t)) recs"
      unfolding w cu using reader_loop_start_record[OF c, of b "u @ CHR 0x0D # CHR 0x0A # t" recs]
      by (simp only: append_Cons)
    also have "\<dots> = reader_loop parse_reset (csv_events False t) (recs @ [[] @ ?ss])"
      by (rule reader_loop_fields[OF ne])
    finally show ?thesis by simp
  qed
qed

lemma reader_loop_rows:
  "reader_loop parse_reset (csv_events False (concat (map csv_writerow rows))) recs
     = Inr (recs @ map (map csv_text) rows)"
proof (induction rows arbitrary: recs)
  case Nil
  show ?case by (simp add: parse_reset_def)
next
  case (Cons r rows)
  show ?case
    using reader_loop_row[of False r "concat (map csv_writerow rows)" recs]
      Cons.IH[of "recs @ [map csv_text r]"]
    by simp
qed

lemma csv_rows_eq: "csv_rows rows out = out @ concat (map csv_writerow rows)"
  by (induction rows arbitrary: out) simp_all

lemma csv_reader_written:
  "csv_reader (csv_rows rows (csv_writerow header)) = Inr (map (map csv_text) (header # rows))"
  using reader_loop_rows[of "header # rows" "[]"]
  by (simp add: csv_reader_def csv_rows_eq)

lemma analyze_loop_all_rows:
  "analyze_loop idx ds acc = Inr rep \<Longrightarrow>
   \<forall>r \<in> set (all_data acc). length r = 5 \<Longrightarrow>
   \<forall>r \<in> set (all_data rep). length r = 5"
proof (induction ds arbitrary: idx acc)
  case Nil
  then show ?case by simp
next
  case (Cons d ds)
  from Cons.prems(1) show ?case
  proof (cases rule: analyze_loop_Cons)
    case (ata r)
    from extract_ata_shape[OF ata(2)] have "length r = 5" by auto
    then show ?thesis using Cons.prems(2) by (intro Cons.IH[OF ata(3)]) auto
  next
    case (nvme r)
    from extract_nvme_shape[OF nvme(3)] have "length r = 5" by auto
    then show ?thesis using Cons.prems(2) by (intro Cons.IH[OF nvme(4)]) auto
  next
    case other
    show ?thesis by (rule Cons.IH[OF other(3)]) (use Cons.prems(2) in simp)
  qed
qed

lemma sample_texts:
  "csv_text (JInt 1) = ''1''" "csv_text (JInt 2) = ''2''" "csv_text (JInt 3) = ''3''"
  "csv_text (JInt 30) = ''30''" "csv_text (JInt 55) = ''55''" "csv_text (JInt 100) = ''100''"
  "csv_text (JInt 40000) = ''40000''"
  by (simp_all add: csv_text_def py_str_def int_str_def nat_digits.simps digit_char_def)

lemma csv_text_str [simp]: "csv_text (JStr s) = s"
  by (simp add: csv_text_def py_str_def)

lemma csv_text_null: "csv_text JNull = []"
  by (simp add: csv_text_def)

lemma save_report_writes:
  "writes (save_report m a w)
     = writes w @ [(output_file m, csv_rows (all_data a) (csv_writerow csv_header))]"
  by (simp add: save_report_def)

text \<open>
  Claim C6, as amended: the file the CSV presenter writes, read back by the CSV reader, gives
  first the header row with the five column names and then one record per row of the full
  view, in order; each record holds, cell by cell, the text the writer gave the cell. That
  text is the \<^verbatim>\<open>str\<close> of the cell for every cell but \<^verbatim>\<open>None\<close>, so integers, strings
  and the sentinel \<^verbatim>\<open>"N/A"\<close> come back verbatim, and it is the empty text for
  \<^verbatim>\<open>None\<close>. Every row of an aggregated full view has five cells.
\<close>

theorem csv_round_trip:
  "csv_reader (snd (last (writes (save_report m a w))))
     = Inr (map (map csv_text) (csv_header # all_data a))
   \<and> map csv_text csv_header
       = [''# Device'', ''Type'', ''Power-on Hours'', ''Temperature'', ''Reallocated Sectors'']
   \<and> (v \<noteq> JNull \<longrightarrow> csv_text v = py_str v)
   \<and> csv_text JNull = []
   \<and> csv_text (JStr ''N/A'') = ''N/A''
   \<and> (analyze_data json_data = Inr a \<longrightarrow> (\<forall>r \<in> set (all_data a). length r = 5))"
proof -
  have "csv_reader (snd (last (writes (save_report m a w))))
     = Inr (map (map csv_text) (csv_header # all_data a))"
    by (simp only: save_report_writes last_snoc snd_conv csv_reader_written)
  moreover have "map csv_text csv_header
       = [''# Device'', ''Type'', ''Power-on Hours'', ''Temperature'', ''Reallocated Sectors'']"
    by (simp add: csv_header_def)
  moreover have "v \<noteq> JNull \<longrightarrow> csv_text v = py_str v"
    by (cases v) (simp_all add: csv_text_def)
  moreover have "csv_text JNull = []"
    by (simp add: csv_text_def)
  moreover have "\<forall>r \<in> set (all_data a). length r = 5" if "analyze_data json_data = Inr a"
    using that analyze_loop_all_rows[of 1 json_data empty_analyzed a]
    by (simp add: analyze_data_def empty_analyzed_def)
  ultimately show ?thesis by simp
qed

text \<open>The theorem at the report of the two sample devices.\<close>

theorem csv_round_trip_witness:
  "analyze_data [ata_sample, nvme_sample] =
     Inr \<lparr>ata_data = [[JStr ''ATA'', JInt 40000, JInt 55, JInt 3]],
          nvme_data = [[JStr ''NVMe'', JInt 100, JInt 30, NA]],
          all_data = [[JInt 1, JStr ''ATA'', JInt 40000, JInt 55, JInt 3],
                      [JInt 2, JStr ''NVMe'', JInt 100, JInt 30, NA]]\<rparr>
   \<and> JInt 40000 \<noteq> JNull
   \<and> py_str (JInt 40000) = ''40000''
   \<and> csv_reader (snd (last (writes (save_report
        \<lparr>json_dir = ''disk_exs'', output_file = ''report.csv'', log_file = ''error_log.txt''\<rparr>
        \<lparr>ata_data = [[JStr ''ATA'', JInt 40000, JInt 55, JInt 3]],
          nvme_data = [[JStr ''NVMe'', JInt 100, JInt 30, NA]],
          all_data = [[JInt 1, JStr ''ATA'', JInt 40000, JInt 55, JInt 3],
                      [JInt 2, JStr ''NVMe'', JInt 100, JInt 30, NA]]\<rparr>
        sample_world))))
      = Inr [[''# Device'', ''Type'', ''Power-on Hours'', ''Temperature'', ''Reallocated Sectors''],
             [''1'', ''ATA'', ''40000'', ''55'', ''3''],
             [''2'', ''NVMe'', ''100'', ''30'', ''N/A'']]"
  using csv_round_trip[of
        "\<lparr>json_dir = ''disk_exs'', output_file = ''report.csv'', log_file = ''error_log.txt''\<rparr>"
        "\<lparr>ata_data = [[JStr ''ATA'', JInt 40000, JInt 55, JInt 3]],
          nvme_data = [[JStr ''NVMe'', JInt 100, JInt 30, NA]],
          all_data = [[JInt 1, JStr ''ATA'', JInt 40000, JInt 55, JInt 3],
                      [JInt 2, JStr ''NVMe'', JInt 100, JInt 30, NA]]\<rparr>"
        sample_world "JInt 40000" "[ata_sample, nvme_sample]"]
    analyze_samples sample_texts
  by (simp add: NA_def)

text \<open>
  A record whose power-on hours are \<^verbatim>\<open>null\<close> is aggregated with the cell
  \<^verbatim>\<open>None\<close>; the field read back is the empty text, not the text \<^verbatim>\<open>None\<close> of the
  cell, and the written row is the one of a view that holds the empty string there.
\<close>

theorem csv_null_cell_counterexample:
  "analyze_data [ata_null_hours] =
     Inr \<lparr>ata_data = [[JStr ''ATA'', JNull, JInt 30, NA]],
          nvme_data = [],
          all_data = [[JInt 1, JStr ''ATA'', JNull, JInt 30, NA]]\<rparr>
   \<and> csv_reader (csv_rows [[JInt 1, JStr ''ATA'', JNull, JInt 30, NA]] (csv_writerow csv_header))
      = Inr [[''# Device'', ''Type'', ''Power-on Hours'', ''Temperature'', ''Reallocated Sectors''],
             [''1'', ''ATA'', [], ''30'', ''N/A'']]
   \<and> py_str JNull = ''None''
   \<and> csv_writerow [JInt 1, JStr ''ATA'', JNull, JInt 30, NA]
      = csv_writerow [JInt 1, JStr ''ATA'', JStr [], JInt 30, NA]"
proof -
  have "analyze_data [ata_null_hours] =
     Inr \<lparr>ata_data = [[JStr ''ATA'', JNull, JInt 30, NA]],
          nvme_data = [],
          all_data = [[JInt 1, JStr ''ATA'', JNull, JInt 30, NA]]\<rparr>"
    by (simp add: analyze_data_def empty_analyzed_def ata_null_hours_def extract_ata_data_def)
  moreover have "csv_reader (csv_rows [[JInt 1, JStr ''ATA'', JNull, JInt 30, NA]] (csv_writerow csv_header))
      = Inr [[''# Device'', ''Type'', ''Power-on Hours'', ''Temperature'', ''Reallocated Sectors''],
             [''1'', ''ATA'', [], ''30'', ''N/A'']]"
    by (simp only: csv_reader_written)
      (simp add: sample_texts csv_text_null NA_def csv_header_def)
  moreover have "py_str JNull = ''None''"
    by (simp add: py_str_def)
  moreover have "csv_writerow [JInt 1, JStr ''ATA'', JNull, JInt 30, NA]
      = csv_writerow [JInt 1, JStr ''ATA'', JStr [], JInt 30, NA]"
    by (simp add: csv_writerow_def csv_text_def py_str_def)
  ultimately show ?thesis by simp
qed

end
